theory Spec2Isabelle
  imports
    Main
    "HOL-Library.Multiset"
    "HOL-Library.Char_ord"
    "HOL-Library.List_Lexorder"
    "HOL-Library.Product_Lexorder"
    "HOL-Library.Word"
begin

text \<open>
  A model of the backup client of go-backup-system: the packages \<open>crypto\<close> and
  \<open>catalog\<close> and, of package \<open>backup\<close>, the scanner, the backup session \<open>Run\<close>, the
  requests of the restore operations and the recovery of the catalog. The first part
  holds the definitions, translated from the Go source; the second part the properties
  proved of them. The file system, the clock, the server, the database driver and the
  random source are inputs of the functions that use them. Calls that only log or report
  progress leave no trace in the model, except the phases sent to \<open>OnProgress\<close>.
\<close>

section \<open>Errors\<close>

text \<open>
  A Go \<open>error\<close> value is modelled by its message; a runtime panic (a slice bound out of
  range, a wrong nonce length) is a branch of its own, since no function below recovers
  from one. \<open>wrap_error\<close> is \<open>fmt.Errorf("...: %w", err)\<close>.
\<close>

datatype error = Error string | Panic string

fun wrap_error :: "string \<Rightarrow> error \<Rightarrow> error" where
  "wrap_error pre (Error m) = Error (pre @ m)"
| "wrap_error pre (Panic m) = Panic m"

section \<open>Library functions the code calls\<close>

subsection \<open>Integers and text\<close>

text \<open>\<open>int64\<close> addition: the sum is reduced to the signed 64-bit range.\<close>

definition wrap64 :: "int \<Rightarrow> int" where
  "wrap64 x = signed_take_bit 63 x"

fun decimal :: "nat \<Rightarrow> string" where
  "decimal n =
     (if n < 10 then [''0123456789'' ! n]
      else decimal (n div 10) @ [''0123456789'' ! (n mod 10)])"

declare decimal.simps [simp del]

text \<open>\<open>%0wd\<close> of a number that is not negative.\<close>

definition zero_pad :: "nat \<Rightarrow> int \<Rightarrow> string" where
  "zero_pad w n =
     (let ds = decimal (nat n) in replicate (w - length ds) (CHR ''0'') @ ds)"

definition ascii_lower :: "char \<Rightarrow> char" where
  "ascii_lower c =
     (case map_of (zip ''ABCDEFGHIJKLMNOPQRSTUVWXYZ'' ''abcdefghijklmnopqrstuvwxyz'') c of
        Some l \<Rightarrow> l
      | None \<Rightarrow> c)"

text \<open>\<open>strings.ToLower\<close>, on the ASCII letters (other bytes are kept).\<close>

definition ToLower :: "string \<Rightarrow> string" where
  "ToLower s = map ascii_lower s"

subsection \<open>Package path/filepath\<close>

fun ext_scan :: "string \<Rightarrow> string \<Rightarrow> string" where
  "ext_scan [] acc = []"
| "ext_scan (c # cs) acc =
     (if c = CHR ''/'' then []
      else if c = CHR ''.'' then c # acc
      else ext_scan cs (c # acc))"

text \<open>
  \<open>filepath.Ext\<close>: the suffix from the last dot of the last path element, scanning from
  the end of the path and stopping at a separator.
\<close>

definition filepath_Ext :: "string \<Rightarrow> string" where
  "filepath_Ext p = ext_scan (rev p) []"

text \<open>\<open>filepath.Base\<close>: the last element, trailing separators removed first.\<close>

definition filepath_Base :: "string \<Rightarrow> string" where
  "filepath_Base p =
     (if p = [] then ''.''
      else let q = rev (dropWhile (\<lambda>c. c = CHR ''/'') (rev p)) in
        if q = [] then ''/''
        else rev (takeWhile (\<lambda>c. c \<noteq> CHR ''/'') (rev q)))"

subsection \<open>Package time\<close>

text \<open>
  An instant is a number of nanoseconds since the Unix epoch. \<open>Format\<close> renders an instant
  in a location; the location is a fixed offset \<open>zone\<close>, in seconds east of UTC.
  \<open>civil_from_days\<close> is the proleptic Gregorian date of a day number (day 0 is
  1970-01-01).
\<close>

definition time_Second :: int where
  "time_Second = 1000000000"

definition civil_from_days :: "int \<Rightarrow> int \<times> int \<times> int" where
  "civil_from_days z0 =
     (let z = z0 + 719468;
          era = z div 146097;
          doe = z mod 146097;
          yoe = (doe - doe div 1460 + doe div 36524 - doe div 146096) div 365;
          y = yoe + era * 400;
          doy = doe - (365 * yoe + yoe div 4 - yoe div 100);
          mp = (5 * doy + 2) div 153;
          d = doy - (153 * mp + 2) div 5 + 1;
          m = (if mp < 10 then mp + 3 else mp - 9)
      in (if m \<le> 2 then y + 1 else y, m, d))"

text \<open>
  The clock fields of an instant: year, month, day, hour, minute, second. The fraction of
  the second is dropped, as both layouts below drop it.
\<close>

definition clock_fields :: "int \<Rightarrow> int \<Rightarrow> int \<times> int \<times> int \<times> int \<times> int \<times> int" where
  "clock_fields zone t =
     (let secs = t div time_Second + zone;
          rem = secs mod 86400;
          (y, m, d) = civil_from_days (secs div 86400)
      in (y, m, d, rem div 3600, rem mod 3600 div 60, rem mod 60))"

text \<open>\<open>t.Format("20060102-150405")\<close>, for the years 0 to 9999.\<close>

definition Format_20060102_150405 :: "int \<Rightarrow> int \<Rightarrow> string" where
  "Format_20060102_150405 zone t =
     (let (y, m, d, hh, mm, ss) = clock_fields zone t
      in zero_pad 4 y @ zero_pad 2 m @ zero_pad 2 d @ ''-'' @
         zero_pad 2 hh @ zero_pad 2 mm @ zero_pad 2 ss)"

text \<open>\<open>t.Format("2006-01-02T15:04:05")\<close>, for the years 0 to 9999.\<close>

definition Format_2006_01_02T15_04_05 :: "int \<Rightarrow> int \<Rightarrow> string" where
  "Format_2006_01_02T15_04_05 zone t =
     (let (y, m, d, hh, mm, ss) = clock_fields zone t
      in zero_pad 4 y @ ''-'' @ zero_pad 2 m @ ''-'' @ zero_pad 2 d @ ''T'' @
         zero_pad 2 hh @ '':'' @ zero_pad 2 mm @ '':'' @ zero_pad 2 ss)"

subsection \<open>Packages crypto/aes, crypto/cipher, compress/gzip\<close>

type_synonym bytes = "8 word list"

text \<open>
  The primitives of the standard library are parameters of the model: AES-GCM sealing and
  opening under a block cipher key and a nonce, with no additional data (\<open>gcm_Open\<close> is
  \<open>None\<close> when authentication fails), and gzip compression and decompression.
\<close>

record stdlib =
  gcm_Seal :: "bytes \<Rightarrow> bytes \<Rightarrow> bytes \<Rightarrow> bytes"
  gcm_Open :: "bytes \<Rightarrow> bytes \<Rightarrow> bytes \<Rightarrow> bytes option"
  gzip_Write :: "bytes \<Rightarrow> bytes"
  gzip_ReadAll :: "bytes \<Rightarrow> error + bytes"

text \<open>\<open>aes.NewCipher\<close> accepts keys of 16, 24 or 32 bytes.\<close>

definition aes_NewCipher :: "bytes \<Rightarrow> error + bytes" where
  "aes_NewCipher key =
     (if length key = 16 \<or> length key = 24 \<or> length key = 32 then Inr key
      else Inl (Error ''crypto/aes: invalid key size''))"

definition gcm_NonceSize :: nat where
  "gcm_NonceSize = 12"

text \<open>
  Go slice expressions \<open>data[:n]\<close> and \<open>data[n:]\<close>, on a slice whose capacity is its
  length: out of range they panic.
\<close>

definition slice_to :: "'a list \<Rightarrow> nat \<Rightarrow> 'a list option" where
  "slice_to xs n = (if n \<le> length xs then Some (take n xs) else None)"

definition slice_from :: "'a list \<Rightarrow> nat \<Rightarrow> 'a list option" where
  "slice_from xs n = (if n \<le> length xs then Some (drop n xs) else None)"

section \<open>Package crypto\<close>

text \<open>
  \<open>Encrypt\<close>: \<open>rnd\<close> is the outcome of \<open>io.ReadFull(rand.Reader, nonce)\<close>, an error or
  the bytes read. \<open>gcm.Seal(nonce, nonce, data, nil)\<close> appends the sealed data to the
  nonce, and panics on a nonce of the wrong length.
\<close>

definition Encrypt :: "stdlib \<Rightarrow> error + bytes \<Rightarrow> bytes \<Rightarrow> bytes \<Rightarrow> error + bytes" where
  "Encrypt lib rnd data key =
     (case aes_NewCipher key of
        Inl e \<Rightarrow> Inl e
      | Inr block \<Rightarrow>
          (case rnd of
             Inl e \<Rightarrow> Inl e
           | Inr nonce \<Rightarrow>
               if length nonce \<noteq> gcm_NonceSize
               then Inl (Panic ''crypto/cipher: incorrect nonce length given to GCM'')
               else Inr (nonce @ gcm_Seal lib block nonce data)))"

definition Decrypt :: "stdlib \<Rightarrow> bytes \<Rightarrow> bytes \<Rightarrow> error + bytes" where
  "Decrypt lib data key =
     (case aes_NewCipher key of
        Inl e \<Rightarrow> Inl e
      | Inr block \<Rightarrow>
          let nonceSize = gcm_NonceSize in
          if length data < nonceSize then Inl (Error ''ciphertext too short'')
          else
            (case (slice_to data nonceSize, slice_from data nonceSize) of
               (Some nonce, Some ciphertext) \<Rightarrow>
                 (case gcm_Open lib block nonce ciphertext of
                    None \<Rightarrow> Inl (Error ''cipher: message authentication failed'')
                  | Some plain \<Rightarrow> Inr plain)
             | _ \<Rightarrow> Inl (Panic ''slice bounds out of range'')))"

text \<open>Writing to the in-memory buffer and closing the gzip writer do not fail.\<close>

definition CompressAndEncrypt :: "stdlib \<Rightarrow> error + bytes \<Rightarrow> bytes \<Rightarrow> bytes \<Rightarrow> error + bytes" where
  "CompressAndEncrypt lib rnd data key = Encrypt lib rnd (gzip_Write lib data) key"

definition DecryptAndDecompress :: "stdlib \<Rightarrow> bytes \<Rightarrow> bytes \<Rightarrow> error + bytes" where
  "DecryptAndDecompress lib data key =
     (case Decrypt lib data key of
        Inl e \<Rightarrow> Inl e
      | Inr compressed \<Rightarrow> gzip_ReadAll lib compressed)"

section \<open>Package catalog\<close>

text \<open>
  \<open>FileEntry\<close>, one row of table \<open>dosyalar\<close>. The struct field \<open>ID\<close> (the rowid) is
  never read or written by the package and is left out. Instants are compared as instants:
  every row is written in one zone.
\<close>

record FileEntry =
  Timestamp :: int
  Directory :: string
  OrigPath :: string
  HashedName :: string
  ContentHash :: string
  Size :: int
  PackedSize :: int

text \<open>The table, in rowid order.\<close>

type_synonym table = "FileEntry list"

text \<open>
  \<open>CatalogFileInfo\<close>; the fields that share a name with a field of \<open>FileEntry\<close>
  carry the suffix \<open>_info\<close>.
\<close>

record CatalogFileInfo =
  OrigPath_info :: string
  Directory_info :: string
  FileName :: string
  LatestVersion :: int
  VersionCount :: nat
  Size_info :: int

subsection \<open>The SQL fragments the statements are built from\<close>

text \<open>\<open>ORDER BY tarih DESC\<close>: a stable sort, latest first.\<close>

definition order_by_tarih_desc :: "table \<Rightarrow> table" where
  "order_by_tarih_desc rs = sort_key (\<lambda>r. - Timestamp r) rs"

text \<open>\<open>ORDER BY dizin, adi\<close>.\<close>

definition order_by_dizin_adi :: "table \<Rightarrow> table" where
  "order_by_dizin_adi rs = sort_key (\<lambda>r. (Directory r, OrigPath r)) rs"

text \<open>\<open>LIMIT 1\<close> read by \<open>QueryRow(...).Scan\<close>: no row is \<open>sql.ErrNoRows\<close>.\<close>

fun limit_1 :: "table \<Rightarrow> FileEntry option" where
  "limit_1 [] = None"
| "limit_1 (r # rs) = Some r"

text \<open>The aggregate \<open>MAX\<close>: SQL NULL (\<open>None\<close>) over no rows.\<close>

fun maximum :: "int list \<Rightarrow> int option" where
  "maximum [] = None"
| "maximum (x # xs) = (case maximum xs of None \<Rightarrow> Some x | Some m \<Rightarrow> Some (max x m))"

text \<open>
  \<open>SELECT MAX(tarih) FROM dosyalar WHERE adi = ? AND tarih <= ?\<close>, also the column
  \<open>max_tarih\<close> of the grouped subquery of \<open>GetFilesAtTime\<close> (\<open>None\<close>: the path has no
  group).
\<close>

definition max_tarih :: "table \<Rightarrow> string \<Rightarrow> int \<Rightarrow> int option" where
  "max_tarih tbl adi bound =
     maximum (map Timestamp (filter (\<lambda>r. OrigPath r = adi \<and> Timestamp r \<le> bound) tbl))"

text \<open>
  \<open>GROUP BY adi\<close> with bare columns: one row stands for each group; SQL leaves the choice
  open, the model takes the first row of the group.
\<close>

fun group_by_adi :: "table \<Rightarrow> table" where
  "group_by_adi [] = []"
| "group_by_adi (r # rs) = r # group_by_adi (filter (\<lambda>x. OrigPath x \<noteq> OrigPath r) rs)"

text \<open>
  SQLite's \<open>LIKE\<close>: \<open>%\<close> matches any run of bytes, \<open>_\<close> one byte, and ASCII letters
  match without regard to case.
\<close>

fun sql_like :: "string \<Rightarrow> string \<Rightarrow> bool" where
  "sql_like [] s = (s = [])"
| "sql_like (p # ps) [] = (p = CHR ''%'' \<and> sql_like ps [])"
| "sql_like (p # ps) (c # cs) =
     (if p = CHR ''%'' then sql_like ps (c # cs) \<or> sql_like (p # ps) cs
      else (p = CHR ''_'' \<or> ascii_lower p = ascii_lower c) \<and> sql_like ps cs)"

text \<open>
  The uniqueness constraints of table \<open>dosyalar\<close>, each as the relation "the two rows
  agree on the columns of the constraint". The schema of \<open>initSchema\<close> declares no
  PRIMARY KEY and no UNIQUE column, and \<open>dosyalar_ndx\<close> and \<open>hash_ndx\<close> are plain
  indexes: there is none. (The rowid is assigned by the engine to every inserted row.)
\<close>

definition unique_constraints :: "(FileEntry \<Rightarrow> FileEntry \<Rightarrow> bool) list" where
  "unique_constraints = []"

text \<open>A stored row conflicts with a row being inserted when a constraint relates them.\<close>

definition conflicts :: "FileEntry \<Rightarrow> FileEntry \<Rightarrow> bool" where
  "conflicts new old = list_ex (\<lambda>agree. agree new old) unique_constraints"

text \<open>\<open>INSERT INTO dosyalar\<close>.\<close>

definition sql_insert :: "table \<Rightarrow> FileEntry \<Rightarrow> table" where
  "sql_insert tbl e = tbl @ [e]"

text \<open>
  \<open>INSERT OR REPLACE INTO dosyalar\<close>: the stored rows that conflict with the new row on a
  uniqueness constraint are deleted, then the row is inserted.
\<close>

definition sql_insert_or_replace :: "table \<Rightarrow> FileEntry \<Rightarrow> table" where
  "sql_insert_or_replace tbl e = filter (\<lambda>old. \<not> conflicts e old) tbl @ [e]"

subsection \<open>Transactions\<close>

text \<open>
  What the driver reports inside a transaction: for \<open>Begin\<close>, for \<open>Prepare\<close>, for the
  \<open>i\<close>-th \<open>Exec\<close> of the prepared statement (from 0) and for \<open>Commit\<close>. A transaction
  works on its own copy of the table; only a successful \<open>Commit\<close> installs it.
\<close>

record tx_faults =
  begin_err :: "string option"
  prepare_err :: "string option"
  exec_err :: "nat \<Rightarrow> string option"
  commit_err :: "string option"

fun exec_all ::
  "(nat \<Rightarrow> string option) \<Rightarrow> (table \<Rightarrow> FileEntry \<Rightarrow> table) \<Rightarrow> nat \<Rightarrow> FileEntry list \<Rightarrow> table
     \<Rightarrow> error + table" where
  "exec_all ex ins i [] work = Inr work"
| "exec_all ex ins i (e # es) work =
     (case ex i of
        Some m \<Rightarrow> Inl (Error m)
      | None \<Rightarrow> exec_all ex ins (Suc i) es (ins work e))"

definition AddEntries :: "tx_faults \<Rightarrow> table \<Rightarrow> FileEntry list \<Rightarrow> error option \<times> table" where
  "AddEntries flt tbl entries =
     (case begin_err flt of
        Some m \<Rightarrow> (Some (Error m), tbl)
      | None \<Rightarrow>
          (case prepare_err flt of
             Some m \<Rightarrow> (Some (Error m), tbl)
           | None \<Rightarrow>
               (case exec_all (exec_err flt) sql_insert 0 entries tbl of
                  Inl e \<Rightarrow> (Some e, tbl)
                | Inr work \<Rightarrow>
                    (case commit_err flt of
                       Some m \<Rightarrow> (Some (Error m), tbl)
                     | None \<Rightarrow> (None, work)))))"

subsection \<open>Queries\<close>

text \<open>
  Every query takes the outcome of the database driver as its first argument: \<open>None\<close> when
  the statement ran and its rows were read, \<open>Some m\<close> when the driver reported the error
  \<open>m\<close>.
\<close>

definition GetLatestVersion :: "string option \<Rightarrow> table \<Rightarrow> string \<Rightarrow> error + FileEntry option" where
  "GetLatestVersion drv tbl origPath =
     (case drv of
        Some m \<Rightarrow> Inl (Error m)
      | None \<Rightarrow> Inr (limit_1 (order_by_tarih_desc (filter (\<lambda>r. OrigPath r = origPath) tbl))))"

text \<open>
  \<open>NeedsBackup\<close>: the log line of the changed case prints \<open>latest.ContentHash[:8]\<close> and
  \<open>currentHash[:8]\<close>, which panic on a string of fewer than 8 bytes.
\<close>

definition NeedsBackup :: "string option \<Rightarrow> table \<Rightarrow> string \<Rightarrow> string \<Rightarrow> int \<Rightarrow> error + bool" where
  "NeedsBackup drv tbl origPath currentHash currentSize =
     (case GetLatestVersion drv tbl origPath of
        Inl e \<Rightarrow> Inl e
      | Inr None \<Rightarrow> Inr True
      | Inr (Some latest) \<Rightarrow>
          if ContentHash latest \<noteq> currentHash then
            (case (slice_to (ContentHash latest) 8, slice_to currentHash 8) of
               (Some old, Some new) \<Rightarrow> Inr True
             | _ \<Rightarrow> Inl (Panic ''slice bounds out of range''))
          else Inr False)"

definition GetFilesAtTime :: "string option \<Rightarrow> table \<Rightarrow> int \<Rightarrow> error + FileEntry list" where
  "GetFilesAtTime drv tbl targetTime =
     (case drv of
        Some m \<Rightarrow> Inl (Error m)
      | None \<Rightarrow>
          Inr (filter (\<lambda>d1. max_tarih tbl (OrigPath d1) targetTime = Some (Timestamp d1)) tbl))"

definition GetFileAtTime :: "string option \<Rightarrow> table \<Rightarrow> string \<Rightarrow> int \<Rightarrow> error + FileEntry option" where
  "GetFileAtTime drv tbl origPath targetTime =
     (let searchTime = targetTime + time_Second in
      case drv of
        Some m \<Rightarrow> Inl (Error m)
      | None \<Rightarrow>
          Inr (limit_1 (order_by_tarih_desc
                 (filter (\<lambda>r. OrigPath r = origPath \<and> Timestamp r \<le> searchTime) tbl))))"

definition GetFilesInDirAtTime :: "string option \<Rightarrow> table \<Rightarrow> string \<Rightarrow> int \<Rightarrow> error + FileEntry list" where
  "GetFilesInDirAtTime drv tbl dirPath targetTime =
     (let searchTime = targetTime + time_Second in
      case drv of
        Some m \<Rightarrow> Inl (Error m)
      | None \<Rightarrow>
          Inr (group_by_adi
                 (filter (\<lambda>d1. sql_like (dirPath @ ''%'') (OrigPath d1) \<and>
                                max_tarih tbl (OrigPath d1) searchTime = Some (Timestamp d1)) tbl)))"

text \<open>
  \<open>GetFilesAtTimestamp\<close>: \<open>LatestVersion\<close> is the instant of the row (its text form is
  read back without loss).
\<close>

definition GetFilesAtTimestamp :: "string option \<Rightarrow> table \<Rightarrow> int \<Rightarrow> error + CatalogFileInfo list" where
  "GetFilesAtTimestamp drv tbl ts =
     (let searchTime = ts + time_Second in
      case drv of
        Some m \<Rightarrow> Inl (Error m)
      | None \<Rightarrow>
          Inr (map (\<lambda>d1.
                 \<lparr>OrigPath_info = OrigPath d1,
                  Directory_info = Directory d1,
                  FileName = filepath_Base (OrigPath d1),
                  LatestVersion = Timestamp d1,
                  VersionCount =
                    length (filter (\<lambda>d2. OrigPath d2 = OrigPath d1 \<and> Timestamp d2 \<le> searchTime) tbl),
                  Size_info = Size d1\<rparr>)
               (order_by_dizin_adi (group_by_adi
                  (filter (\<lambda>d1. max_tarih tbl (OrigPath d1) searchTime = Some (Timestamp d1)) tbl)))))"

subsection \<open>Snapshots\<close>

text \<open>
  \<open>ExportToFile\<close> copies every row into a new database file; \<open>dest\<close> holds the rows
  the destination file had before (none, for a new file). The result is the content of the
  destination file.
\<close>

definition ExportToFile :: "string option \<Rightarrow> tx_faults \<Rightarrow> table \<Rightarrow> table \<Rightarrow> error option \<times> table" where
  "ExportToFile drv flt tbl dest =
     (case drv of
        Some m \<Rightarrow> (Some (Error m), dest)
      | None \<Rightarrow> AddEntries flt dest tbl)"

text \<open>
  \<open>ImportFromFile\<close>: \<open>src\<close> is the table of the snapshot file, \<open>drv\<close> the outcome of
  opening and querying it. Every row read is written with \<open>INSERT OR REPLACE\<close> in one
  transaction; a row that cannot be scanned or written is the fault of its \<open>Exec\<close>.
\<close>

definition ImportFromFile :: "string option \<Rightarrow> tx_faults \<Rightarrow> table \<Rightarrow> table \<Rightarrow> error option \<times> table" where
  "ImportFromFile drv flt tbl src =
     (case drv of
        Some m \<Rightarrow> (Some (Error m), tbl)
      | None \<Rightarrow>
          (case begin_err flt of
             Some m \<Rightarrow> (Some (Error m), tbl)
           | None \<Rightarrow>
               (case prepare_err flt of
                  Some m \<Rightarrow> (Some (Error m), tbl)
                | None \<Rightarrow>
                    (case exec_all (exec_err flt) sql_insert_or_replace 0 src tbl of
                       Inl e \<Rightarrow> (Some e, tbl)
                     | Inr work \<Rightarrow>
                         (case commit_err flt of
                            Some m \<Rightarrow> (Some (Error m), tbl)
                          | None \<Rightarrow> (None, work))))))"

text \<open>A driver that reports no error.\<close>

definition no_faults :: tx_faults where
  "no_faults = \<lparr>begin_err = None, prepare_err = None, exec_err = (\<lambda>i. None), commit_err = None\<rparr>"

section \<open>Package backup: the scanner\<close>

text \<open>\<open>fileToBackup\<close>; \<open>fsize\<close> is its field \<open>size\<close>.\<close>

record fileToBackup =
  path :: string
  fsize :: int
  modTime :: int
  hashedName :: string
  contentHash :: string

text \<open>
  What \<open>filepath.Walk\<close> hands to the callback for one entry, with what the callback then
  learns about it: the absolute path (\<open>filepath.Abs\<close>, its error dropped), the outcome
  of \<open>crypto.HashFileContent\<close>, and what the driver reports for the catalog query.
\<close>

record walk_item =
  w_path :: string
  w_err :: bool
  w_IsDir :: bool
  w_Size :: int
  w_ModTime :: int
  w_Abs :: string
  w_hash :: "error + string"
  w_drv :: "string option"

text \<open>
  The variables the callback updates; \<open>seenPaths\<close> is the set of keys of the Go map
  (only \<open>true\<close> is ever stored), \<open>emitted\<close> the phases sent to \<open>OnProgress\<close>.
\<close>

record scan_state =
  files :: "fileToBackup list"
  scannedCount :: int
  skippedCount :: int
  seenPaths :: "string set"
  emitted :: "string list"

text \<open>
  The callback of \<open>scanDirectoryIncrementalWithProgress\<close>; \<open>hp\<close> is \<open>crypto.HashPath\<close>
  (SHA-224 in hexadecimal). An error of \<open>NeedsBackup\<close> means the file is backed up.
\<close>

definition visit ::
  "(string \<Rightarrow> string) \<Rightarrow> string list \<Rightarrow> table \<Rightarrow> walk_item \<Rightarrow> scan_state \<Rightarrow> error + scan_state" where
  "visit hp blacklist tbl w st =
     (if w_err w \<or> w_IsDir w then Inr st
      else if w_Size w = 0 then Inr st
      else if w_Abs w \<in> seenPaths st then Inr st
      else
        let st1 = st\<lparr>seenPaths := insert (w_Abs w) (seenPaths st),
                     scannedCount := scannedCount st + 1\<rparr>;
            st2 = (if scannedCount st1 mod 100 = 0
                   then st1\<lparr>emitted := emitted st1 @ [''scanning'']\<rparr> else st1);
            ext = ToLower (filepath_Ext (w_path w));
            file = \<lambda>h. \<lparr>path = w_path w, fsize = w_Size w, modTime = w_ModTime w,
                         hashedName = hp (w_path w), contentHash = h\<rparr>
        in
        if list_ex (\<lambda>blocked. ext = blocked \<or> ext = ''.'' @ blocked) blacklist then Inr st2
        else
          (case w_hash w of
             Inl e \<Rightarrow> Inr st2
           | Inr h \<Rightarrow>
               (case NeedsBackup (w_drv w) tbl (w_path w) h (w_Size w) of
                  Inl (Panic m) \<Rightarrow> Inl (Panic m)
                | Inl (Error m) \<Rightarrow> Inr (st2\<lparr>files := files st2 @ [file h]\<rparr>)
                | Inr True \<Rightarrow> Inr (st2\<lparr>files := files st2 @ [file h]\<rparr>)
                | Inr False \<Rightarrow> Inr (st2\<lparr>skippedCount := skippedCount st2 + 1\<rparr>))))"

fun walk ::
  "(string \<Rightarrow> string) \<Rightarrow> string list \<Rightarrow> table \<Rightarrow> walk_item list \<Rightarrow> scan_state \<Rightarrow> error + scan_state" where
  "walk hp blacklist tbl [] st = Inr st"
| "walk hp blacklist tbl (w # ws) st =
     (case visit hp blacklist tbl w st of
        Inl e \<Rightarrow> Inl e
      | Inr st' \<Rightarrow> walk hp blacklist tbl ws st')"

text \<open>
  \<open>scanDirectoryIncrementalWithProgress\<close> on the entries \<open>ws\<close> that the walk of the
  directory visits: the counters start at zero, the map \<open>seenPaths\<close> is the caller's. The
  callback always returns \<open>nil\<close>, so the walk returns no error.
\<close>

definition scanDirectoryIncrementalWithProgress ::
  "(string \<Rightarrow> string) \<Rightarrow> string list \<Rightarrow> table \<Rightarrow> walk_item list \<Rightarrow> string set \<Rightarrow> error + scan_state" where
  "scanDirectoryIncrementalWithProgress hp blacklist tbl ws seen =
     walk hp blacklist tbl ws
       \<lparr>files = [], scannedCount = 0, skippedCount = 0, seenPaths = seen, emitted = []\<rparr>"

text \<open>The loop of \<open>Run\<close> over \<open>BackupDirs\<close>, one walk for each directory.\<close>

fun scan_dirs ::
  "(string \<Rightarrow> string) \<Rightarrow> string list \<Rightarrow> table \<Rightarrow> walk_item list list \<Rightarrow> scan_state \<Rightarrow> error + scan_state" where
  "scan_dirs hp blacklist tbl [] acc = Inr acc"
| "scan_dirs hp blacklist tbl (ws # dirs) acc =
     (case scanDirectoryIncrementalWithProgress hp blacklist tbl ws (seenPaths acc) of
        Inl e \<Rightarrow> Inl e
      | Inr r \<Rightarrow>
          scan_dirs hp blacklist tbl dirs
            \<lparr>files = files acc @ files r,
             scannedCount = scannedCount acc + scannedCount r,
             skippedCount = skippedCount acc + skippedCount r,
             seenPaths = seenPaths r,
             emitted = emitted acc @ [''scanning''] @ emitted r\<rparr>)"

section \<open>Package backup: a backup session\<close>

definition maxTarSize :: int where
  "maxTarSize = 25 * 1024 * 1024"

text \<open>The fields of \<open>Service\<close> and of its configuration that a session reads or writes.\<close>

record Service =
  isRunning :: bool
  shouldStop :: bool
  catalog :: table
  DeviceID :: nat
  EncryptionKey :: string
  Blacklist :: "string list"

text \<open>
  What happens to one file in the packing loop: one of the five failures that skip it, or
  \<open>Packed packedSize encSize\<close>, with the size \<open>crypto.EncryptFile\<close> returned and the
  size \<open>os.Stat\<close> reported for the encrypted file.
\<close>

datatype pack_outcome =
  EncryptFailed | StatFailed | WriteHeaderFailed | OpenFailed | CopyFailed | Packed int int

text \<open>
  The surroundings of one call of \<open>Run\<close>: the zone of the clock, \<open>crypto.HashPath\<close> and
  \<open>filepath.Dir\<close>, the two readings of \<open>time.Now()\<close>, the walks of the configured
  directories, the value of \<open>shouldStop\<close> read at the head of iteration \<open>i\<close> (\<open>Stop\<close>
  writes it from another goroutine), the outcome of packing file \<open>i\<close>, and what the file
  system, the server and the database driver report (tar parts are numbered from 1).
\<close>

record run_env =
  zone :: int
  HashPath :: "string \<Rightarrow> string"
  Dir :: "string \<Rightarrow> string"
  now_start :: int
  mkdir_err :: "string option"
  walks :: "walk_item list list"
  create_err :: "nat \<Rightarrow> string option"
  now_pack :: int
  stop_seen :: "nat \<Rightarrow> bool"
  pack :: "nat \<Rightarrow> pack_outcome"
  upload_err :: "nat \<Rightarrow> string option"
  add_faults :: tx_faults
  export_drv :: "string option"
  export_faults :: tx_faults
  encrypt_catalog_err :: "string option"
  upload_catalog_err :: "string option"

text \<open>
  The local variables of \<open>Run\<close> and what the session has sent out: \<open>members\<close> are the
  member sizes of the open tar file in the order written, \<open>sealed\<close> the tar files closed
  so far, \<open>uploaded\<close> the tar files the server accepted (name and member sizes),
  \<open>phases\<close> the phases sent to \<open>OnProgress\<close>, \<open>snapshot\<close> the catalog dump uploaded.
\<close>

record session =
  backupID :: string
  timestamp :: int
  phases :: "string list"
  tarSize :: int
  tarPart :: nat
  members :: "int list"
  catalogEntries :: "FileEntry list"
  doneBytes :: int
  sealed :: "int list list"
  uploaded :: "(string \<times> int list) list"
  snapshot :: "table option"

definition new_session :: session where
  "new_session =
     \<lparr>backupID = [], timestamp = 0, phases = [], tarSize = 0, tarPart = 1, members = [],
      catalogEntries = [], doneBytes = 0, sealed = [], uploaded = [], snapshot = None\<rparr>"

text \<open>\<open>fmt.Sprintf("%s-%06d.tar", backupID, tarPart)\<close>.\<close>

definition tar_name :: "string \<Rightarrow> nat \<Rightarrow> string" where
  "tar_name bid part = bid @ ''-'' @ zero_pad 6 (int part) @ ''.tar''"

text \<open>\<open>emitProgress\<close> with the given phase.\<close>

definition emit :: "string \<Rightarrow> session \<Rightarrow> session" where
  "emit phase ss = ss\<lparr>phases := phases ss @ [phase]\<rparr>"

text \<open>
  A file that was encrypted and copied into the open tar file: the two counters grow and
  the entry of the new version is kept for the catalog.
\<close>

definition add_member :: "run_env \<Rightarrow> fileToBackup \<Rightarrow> int \<Rightarrow> int \<Rightarrow> session \<Rightarrow> session" where
  "add_member env f packedSize encSize ss =
     ss\<lparr>tarSize := wrap64 (tarSize ss + encSize),
        doneBytes := wrap64 (doneBytes ss + fsize f),
        members := members ss @ [encSize],
        catalogEntries := catalogEntries ss @
          [\<lparr>Timestamp = timestamp ss, Directory = Dir env (path f), OrigPath = path f,
            HashedName = hashedName f, ContentHash = contentHash f, Size = fsize f,
            PackedSize = packedSize\<rparr>]\<rparr>"

text \<open>\<open>tarWriter.Close(); tarFile.Close()\<close>.\<close>

definition close_tar :: "session \<Rightarrow> session" where
  "close_tar ss = ss\<lparr>sealed := sealed ss @ [members ss]\<rparr>"

text \<open>The server accepted the closed tar file.\<close>

definition tar_uploaded :: "session \<Rightarrow> session" where
  "tar_uploaded ss =
     ss\<lparr>uploaded := uploaded ss @ [(tar_name (backupID ss) (tarPart ss), members ss)]\<rparr>"

text \<open>The counters of the next tar file.\<close>

definition next_tar :: "session \<Rightarrow> session" where
  "next_tar ss = ss\<lparr>tarPart := tarPart ss + 1, tarSize := 0, members := []\<rparr>"

text \<open>The packing loop of \<open>Run\<close>, from iteration \<open>i\<close> on.\<close>

fun pack_files :: "run_env \<Rightarrow> nat \<Rightarrow> fileToBackup list \<Rightarrow> session \<Rightarrow> error option \<times> session" where
  "pack_files env i [] ss = (None, ss)"
| "pack_files env i (f # rest) ss =
     (if stop_seen env i then (Some (Error ''backup cancelled''), close_tar ss)
      else
        case pack env i of
          Packed packedSize encSize \<Rightarrow>
            let ss1 = add_member env f packedSize encSize (emit ''encrypting'' ss) in
            if tarSize ss1 > maxTarSize then
              let ss2 = emit ''uploading'' (close_tar ss1) in
              (case upload_err env (tarPart ss2) of
                 Some m \<Rightarrow> (Some (Error (''failed to upload tar: '' @ m)), ss2)
               | None \<Rightarrow>
                   let ss3 = next_tar (tar_uploaded ss2) in
                   (case create_err env (tarPart ss3) of
                      Some m \<Rightarrow> (Some (Error m), ss3)
                    | None \<Rightarrow> pack_files env (Suc i) rest ss3))
            else pack_files env (Suc i) rest ss1
        | _ \<Rightarrow> pack_files env (Suc i) rest (emit ''encrypting'' ss))"

text \<open>The end of \<open>Run\<close>: the catalog dump is exported, encrypted and uploaded.\<close>

definition upload_snapshot :: "run_env \<Rightarrow> Service \<Rightarrow> session \<Rightarrow> error option \<times> Service \<times> session" where
  "upload_snapshot env s ss =
     (let ss1 = emit ''uploading_catalog'' ss in
      case ExportToFile (export_drv env) (export_faults env) (catalog s) [] of
        (Some e, dump) \<Rightarrow> (Some (wrap_error ''failed to export catalog: '' e), s, ss1)
      | (None, dump) \<Rightarrow>
          (case encrypt_catalog_err env of
             Some m \<Rightarrow> (Some (Error (''failed to encrypt catalog: '' @ m)), s, ss1)
           | None \<Rightarrow>
               (case upload_catalog_err env of
                  Some m \<Rightarrow> (Some (Error (''failed to upload catalog: '' @ m)), s, ss1)
                | None \<Rightarrow> (None, s, emit ''complete'' (ss1\<lparr>snapshot := Some dump\<rparr>)))))"

text \<open>The entries of the session are added to the catalog, when there are any.\<close>

definition commit_catalog :: "run_env \<Rightarrow> Service \<Rightarrow> session \<Rightarrow> error option \<times> Service \<times> session" where
  "commit_catalog env s ss =
     (if length (catalogEntries ss) > 0 then
        let ss1 = emit ''updating_catalog'' ss in
        case AddEntries (add_faults env) (catalog s) (catalogEntries ss) of
          (Some e, tbl) \<Rightarrow>
            (Some (wrap_error ''failed to update catalog: '' e), s\<lparr>catalog := tbl\<rparr>, ss1)
        | (None, tbl) \<Rightarrow> upload_snapshot env (s\<lparr>catalog := tbl\<rparr>) ss1
      else upload_snapshot env s ss)"

text \<open>After the loop the open tar file is closed, and uploaded when it has content.\<close>

definition upload_final :: "run_env \<Rightarrow> Service \<Rightarrow> session \<Rightarrow> error option \<times> Service \<times> session" where
  "upload_final env s ss =
     (let ss1 = close_tar ss in
      if tarSize ss1 > 0 then
        let ss2 = emit ''uploading'' ss1 in
        (case upload_err env (tarPart ss2) of
           Some m \<Rightarrow> (Some (Error (''failed to upload tar: '' @ m)), s, ss2)
         | None \<Rightarrow> commit_catalog env s (tar_uploaded ss2))
      else commit_catalog env s ss1)"

text \<open>
  \<open>Run\<close>. The result is the error returned, the service after the call (the deferred
  function has reset \<open>isRunning\<close>) and the session. The field \<open>shouldStop\<close> holds what
  \<open>Run\<close> itself writes; what \<open>Stop\<close> writes meanwhile is read through \<open>stop_seen\<close>.
\<close>

definition Run :: "run_env \<Rightarrow> Service \<Rightarrow> error option \<times> Service \<times> session" where
  "Run env s0 =
     (if isRunning s0 then (Some (Error ''backup already running''), s0, new_session)
      else
        let s = s0\<lparr>isRunning := False, shouldStop := False\<rparr> in
        if DeviceID s = 0 then (Some (Error ''no device registered''), s, new_session)
        else if EncryptionKey s = [] then (Some (Error ''encryption key not set''), s, new_session)
        else
          let ss = new_session\<lparr>backupID := Format_20060102_150405 (zone env) (now_start env)\<rparr> in
          case mkdir_err env of
            Some m \<Rightarrow> (Some (Error m), s, ss)
          | None \<Rightarrow>
              (case scan_dirs (HashPath env) (Blacklist s) (catalog s) (walks env)
                      \<lparr>files = [], scannedCount = 0, skippedCount = 0, seenPaths = {},
                       emitted = [''scanning'']\<rparr> of
                 Inl e \<Rightarrow> (Some e, s, ss)
               | Inr sc \<Rightarrow>
                   let ss1 = ss\<lparr>phases := emitted sc @ [''scanning'']\<rparr>;
                       filesToBackup = files sc
                   in
                   if length filesToBackup = 0
                   then (None, s, ss1\<lparr>phases := phases ss1 @ [''complete'']\<rparr>)
                   else
                     let ss2 = ss1\<lparr>phases := phases ss1 @ [''encrypting'']\<rparr> in
                     (case create_err env 1 of
                        Some m \<Rightarrow> (Some (Error m), s, ss2)
                      | None \<Rightarrow>
                          (case pack_files env 0 filesToBackup (ss2\<lparr>timestamp := now_pack env\<rparr>) of
                             (Some e, ss3) \<Rightarrow> (Some e, s, ss3)
                           | (None, ss3) \<Rightarrow> upload_final env s ss3))))"

section \<open>Package backup: the requests of a restore\<close>

text \<open>
  \<open>RestoreFile\<close> and \<open>RestoreDirectory\<close>, up to the body they post to
  \<open>/api/v1/devices/{id}/restore-files\<close>: the list of the pairs
  \<open>(hashed_name, target_date)\<close>. \<open>loc\<close> is the zone of the stored instants. The
  byte pairs in the messages are the UTF-8 letters of the source's Turkish text.
\<close>

definition RestoreFile_request ::
  "int \<Rightarrow> string option \<Rightarrow> Service \<Rightarrow> string \<Rightarrow> int \<Rightarrow> error + (string \<times> string) list" where
  "RestoreFile_request loc drv s origPath targetDate =
     (if isRunning s then Inl (Error ''operation already running'')
      else
        case GetFileAtTime drv (catalog s) origPath targetDate of
          Inl e \<Rightarrow>
            Inl (wrap_error (''dosya bulunamad'' @ [CHR 0xC4, CHR 0xB1] @ '': '') e)
        | Inr None \<Rightarrow>
            Inl (Error (''dosya bu tarihte mevcut de'' @ [CHR 0xC4, CHR 0x9F] @ ''il''))
        | Inr (Some file) \<Rightarrow>
            Inr [(HashedName file, Format_2006_01_02T15_04_05 loc (Timestamp file))])"

definition RestoreDirectory_request ::
  "int \<Rightarrow> string option \<Rightarrow> Service \<Rightarrow> string \<Rightarrow> int \<Rightarrow> error + (string \<times> string) list" where
  "RestoreDirectory_request loc drv s dirPath targetDate =
     (if isRunning s then Inl (Error ''operation already running'')
      else
        case GetFilesInDirAtTime drv (catalog s) dirPath targetDate of
          Inl e \<Rightarrow>
            Inl (wrap_error (''dizin dosyalar'' @ [CHR 0xC4, CHR 0xB1] @ '' al'' @
                             [CHR 0xC4, CHR 0xB1] @ ''namad'' @ [CHR 0xC4, CHR 0xB1] @ '': '') e)
        | Inr found \<Rightarrow>
            if length found = 0
            then Inl (Error (''bu dizinde geri y'' @ [CHR 0xC3, CHR 0xBC] @
                             ''klenecek dosya bulunamad'' @ [CHR 0xC4, CHR 0xB1]))
            else Inr (map (\<lambda>f. (HashedName f, Format_2006_01_02T15_04_05 loc (Timestamp f)))
                        found))"

text \<open>
  \<open>RecoverCatalog\<close>, after the list of snapshots has been fetched: each element is the
  decrypted snapshot (\<open>None\<close> when the download or the decryption failed, and the snapshot
  is skipped) with what the driver reports for its import; a failed import is skipped too.
\<close>

fun RecoverCatalog :: "((string option \<times> tx_faults \<times> table) option) list \<Rightarrow> table \<Rightarrow> table" where
  "RecoverCatalog [] tbl = tbl"
| "RecoverCatalog (None # rest) tbl = RecoverCatalog rest tbl"
| "RecoverCatalog (Some (drv, flt, src) # rest) tbl =
     RecoverCatalog rest (snd (ImportFromFile drv flt tbl src))"

section \<open>Example data\<close>

text \<open>
  The sessions of the seed scenarios: \<open>/data/a.txt\<close> holds \<open>hello\<close> at
  2024-01-15 10:00:00 UTC (\<open>T1\<close>) and \<open>hello!\<close> two seconds later (\<open>T3\<close>);
  \<open>T2\<close> lies between them.
\<close>

definition T1 :: int where
  "T1 = 1705312800000000000"

definition T2 :: int where
  "T2 = 1705312801000000000"

definition T3 :: int where
  "T3 = 1705312802000000000"

definition hash_hello :: string where
  "hash_hello = ''2cf24dba5fb0a30e26e83b2ac5b9e29e1b161e5c1fa7425e73043362938b9824''"

definition hash_hello2 :: string where
  "hash_hello2 = ''ce06092fb948d9ffac7d1a376e404b26b7575bcc11ee05a4615fef4fec3a308b''"

definition name_a :: string where
  "name_a = ''90a3ed9e32b2aaf4c61c410eb925426119e1a9dc53d4286ade99a809''"

definition v1 :: FileEntry where
  "v1 = \<lparr>Timestamp = T1, Directory = ''/data'', OrigPath = ''/data/a.txt'',
         HashedName = name_a, ContentHash = hash_hello, Size = 5, PackedSize = 53\<rparr>"

definition v3 :: FileEntry where
  "v3 = \<lparr>Timestamp = T3, Directory = ''/data'', OrigPath = ''/data/a.txt'',
         HashedName = name_a, ContentHash = hash_hello2, Size = 6, PackedSize = 54\<rparr>"

text \<open>A version written half a second after \<open>T1\<close>.\<close>

definition v_half :: FileEntry where
  "v_half = \<lparr>Timestamp = T1 + 500000000, Directory = ''/data'', OrigPath = ''/data/b.txt'',
             HashedName = ''b0'', ContentHash = hash_hello, Size = 5, PackedSize = 53\<rparr>"

text \<open>
  A stand-in for the library primitives, for the examples: sealing appends the nonce as
  the tag and opening checks it; compression puts one header byte in front.
\<close>

definition example_lib :: stdlib where
  "example_lib =
     \<lparr>gcm_Seal = (\<lambda>k n p. p @ n),
      gcm_Open = (\<lambda>k n c.
         if length n \<le> length c \<and> drop (length c - length n) c = n
         then Some (take (length c - length n) c) else None),
      gzip_Write = (\<lambda>x. 31 # x),
      gzip_ReadAll = (\<lambda>c. case c of
           [] \<Rightarrow> Inl (Error ''unexpected EOF'')
         | b # x \<Rightarrow> if b = 31 then Inr x else Inl (Error ''gzip: invalid header''))\<rparr>"

definition example_key :: bytes where
  "example_key = replicate 32 7"

definition example_nonce :: bytes where
  "example_nonce = [1, 2, 3, 4, 5, 6, 7, 8, 9, 10, 11, 12]"

text \<open>A service with the catalog of the first session.\<close>

definition svc1 :: Service where
  "svc1 = \<lparr>isRunning = False, shouldStop = False, catalog = [v1], DeviceID = 1,
           EncryptionKey = ''pw'', Blacklist = []\<rparr>"

text \<open>Two entries of a walk of \<open>/data\<close>: \<open>a.txt\<close> unchanged, \<open>c.txt\<close> new.\<close>

definition walk_a :: walk_item where
  "walk_a = \<lparr>w_path = ''/data/a.txt'', w_err = False, w_IsDir = False, w_Size = 5,
             w_ModTime = T1, w_Abs = ''/data/a.txt'', w_hash = Inr hash_hello, w_drv = None\<rparr>"

definition walk_c :: walk_item where
  "walk_c = \<lparr>w_path = ''/data/c.txt'', w_err = False, w_IsDir = False, w_Size = 6,
             w_ModTime = T1, w_Abs = ''/data/c.txt'', w_hash = Inr hash_hello2, w_drv = None\<rparr>"

definition example_HashPath :: "string \<Rightarrow> string" where
  "example_HashPath p = (if p = ''/data/a.txt'' then name_a else ''c0'')"

section \<open>Invariants of the packing loop\<close>

text \<open>
  The sizes that \<open>os.Stat\<close> reports for the encrypted files are not negative and leave
  room for a full tar file below the largest \<open>int64\<close>.
\<close>

definition sizes_ok :: "run_env \<Rightarrow> bool" where
  "sizes_ok env \<longleftrightarrow>
     (\<forall>i p e. pack env i = Packed p e \<longrightarrow> 0 \<le> e \<and> e \<le> 2 ^ 63 - 1 - maxTarSize)"

text \<open>
  At the head of every iteration: \<open>tarSize\<close> is the sum of the members of the open tar
  file and within the limit, and every tar file closed so far went over the limit with its
  last member only. \<open>sealed_ok\<close> is what remains true once the last tar file is closed.
\<close>

definition pack_inv :: "session \<Rightarrow> bool" where
  "pack_inv ss \<longleftrightarrow>
     tarSize ss = sum_list (members ss) \<and> (\<forall>m\<in>set (members ss). 0 \<le> m) \<and>
     tarSize ss \<le> maxTarSize \<and>
     (\<forall>sh\<in>set (sealed ss). sum_list (butlast sh) \<le> maxTarSize \<and> maxTarSize < sum_list sh) \<and>
     snd ` set (uploaded ss) \<subseteq> set (sealed ss)"

definition sealed_ok :: "session \<Rightarrow> bool" where
  "sealed_ok ss \<longleftrightarrow>
     (\<forall>sh\<in>set (sealed ss). sum_list (butlast sh) \<le> maxTarSize) \<and>
     (\<forall>sh\<in>set (butlast (sealed ss)). maxTarSize < sum_list sh) \<and>
     snd ` set (uploaded ss) \<subseteq> set (sealed ss)"

text \<open>Every entry kept for the catalog carries the timestamp of the session.\<close>

definition entries_stamped :: "session \<Rightarrow> bool" where
  "entries_stamped ss \<longleftrightarrow> (\<forall>e\<in>set (catalogEntries ss). Timestamp e = timestamp ss)"

section \<open>Example sessions\<close>

text \<open>
  A service with an empty catalog; \<open>env_a\<close> backs up \<open>a.txt\<close> with the clock at
  0.2 s and 0.3 s after \<open>T1\<close>, \<open>env_b\<close> backs up its changed content with the clock at
  0.6 s and 0.7 s after \<open>T1\<close>; \<open>env_big\<close> packs files of 20, 10 and 1 MiB, and
  \<open>env_cancel\<close> is stopped before the second of them.
\<close>

definition svc0 :: Service where
  "svc0 = \<lparr>isRunning = False, shouldStop = False, catalog = [], DeviceID = 1,
           EncryptionKey = ''pw'', Blacklist = []\<rparr>"

definition walk_a2 :: walk_item where
  "walk_a2 = walk_a\<lparr>w_Size := 6, w_hash := Inr hash_hello2\<rparr>"

definition walk_d :: walk_item where
  "walk_d = \<lparr>w_path = ''/data/d.bin'', w_err = False, w_IsDir = False, w_Size = 1048576,
             w_ModTime = T1, w_Abs = ''/data/d.bin'', w_hash = Inr hash_hello2, w_drv = None\<rparr>"

definition env_a :: run_env where
  "env_a = \<lparr>zone = 0, HashPath = example_HashPath, Dir = (\<lambda>p. ''/data''),
            now_start = T1 + 200000000, mkdir_err = None, walks = [[walk_a]],
            create_err = (\<lambda>n. None), now_pack = T1 + 300000000, stop_seen = (\<lambda>i. False),
            pack = (\<lambda>i. Packed 53 53), upload_err = (\<lambda>n. None), add_faults = no_faults,
            export_drv = None, export_faults = no_faults, encrypt_catalog_err = None,
            upload_catalog_err = None\<rparr>"

definition env_b :: run_env where
  "env_b = env_a\<lparr>now_start := T1 + 600000000, now_pack := T1 + 700000000,
                  walks := [[walk_a2]], pack := (\<lambda>i. Packed 54 54)\<rparr>"

definition svc_a :: Service where
  "svc_a = fst (snd (Run env_a svc0))"

definition env_big :: run_env where
  "env_big = env_a\<lparr>walks := [[walk_a, walk_c, walk_d]],
                    pack := (\<lambda>i. if i = 0 then Packed 20971520 20971520
                                  else if i = 1 then Packed 10485760 10485760
                                  else Packed 1048576 1048576)\<rparr>"

definition env_cancel :: run_env where
  "env_cancel = env_big\<lparr>stop_seen := (\<lambda>i. i = 1)\<rparr>"

section \<open>The point-in-time query of one file\<close>


lemma limit_1_order_by_Some:
  assumes "limit_1 (order_by_tarih_desc rs) = Some r"
  shows "r \<in> set rs \<and> (\<forall>x\<in>set rs. Timestamp x \<le> Timestamp r)"
proof -
  obtain rest where srt: "order_by_tarih_desc rs = r # rest"
    using assms by (cases "order_by_tarih_desc rs") auto
  have mem: "set (order_by_tarih_desc rs) = set rs"
    by (simp add: order_by_tarih_desc_def)
  have "sorted (map (\<lambda>r. - Timestamp r) (order_by_tarih_desc rs))"
    by (simp add: order_by_tarih_desc_def)
  then have "\<forall>x\<in>set rest. - Timestamp r \<le> - Timestamp x"
    by (simp add: srt)
  then have "\<forall>x\<in>set (r # rest). Timestamp x \<le> Timestamp r"
    by auto
  then show ?thesis
    using mem srt by (metis list.set_intros(1))
qed



text \<open>
  The tolerance reaches a session that began exactly one second after the requested
  instant: with versions at \<open>T1\<close> and \<open>T3\<close>, the query for \<open>T2\<close> returns the version of
  \<open>T3\<close>.
\<close>

lemma GetFileAtTime_reaches_next_second:
  "T3 = T2 + time_Second \<and> GetFileAtTime None [v1, v3] ''/data/a.txt'' T2 = Inr (Some v3)"
  by (simp add: GetFileAtTime_def order_by_tarih_desc_def v1_def v3_def T1_def T2_def T3_def
      time_Second_def)

section \<open>Importing a snapshot\<close>

lemma exec_all_no_faults:
  "exec_all (\<lambda>i. None) ins i es work = Inr (foldl ins work es)"
  by (induction es arbitrary: i work) simp_all

lemma foldl_sql_insert_or_replace:
  "foldl sql_insert_or_replace work es = work @ es"
  by (induction es arbitrary: work) (simp_all add: sql_insert_or_replace_def conflicts_def unique_constraints_def)

lemma ImportFromFile_appends:
  "ImportFromFile None no_faults tbl src = (None, tbl @ src)"
  by (simp add: ImportFromFile_def no_faults_def exec_all_no_faults foldl_sql_insert_or_replace)

text \<open>
  Claim C1 says that importing a snapshot twice leaves the same multiset of rows as
  importing it once. On the code it does not: with no uniqueness constraint in the schema,
  \<open>INSERT OR REPLACE\<close> replaces nothing, and the second import of the snapshot
  \<open>[v1]\<close> into the empty catalog leaves two copies of \<open>v1\<close>.
\<close>

theorem ImportFromFile_twice_duplicates:
  "snd (ImportFromFile None no_faults [] [v1]) = [v1] \<and>
   snd (ImportFromFile None no_faults (snd (ImportFromFile None no_faults [] [v1])) [v1]) = [v1, v1] \<and>
   mset (snd (ImportFromFile None no_faults (snd (ImportFromFile None no_faults [] [v1])) [v1]))
     \<noteq> mset (snd (ImportFromFile None no_faults [] [v1]))"
  by (simp add: ImportFromFile_appends)

text \<open>The same holds for every catalog and every snapshot that is not empty.\<close>

lemma ImportFromFile_never_idempotent:
  "src \<noteq> [] \<Longrightarrow>
   mset (snd (ImportFromFile None no_faults (snd (ImportFromFile None no_faults tbl src)) src))
     \<noteq> mset (snd (ImportFromFile None no_faults tbl src))"
  by (simp add: ImportFromFile_appends)

text \<open>
  Recovery imports every snapshot of the device; the snapshot of a later session contains
  the rows of the earlier ones, which are then stored twice.
\<close>

lemma RecoverCatalog_duplicates:
  "RecoverCatalog [Some (None, no_faults, [v1]), Some (None, no_faults, [v1, v3])] [] = [v1, v1, v3]"
  by (simp add: ImportFromFile_appends)

section \<open>The files at an instant\<close>

lemma maximum_None: "maximum xs = None \<longleftrightarrow> xs = []"
  by (induction xs) (auto split: option.splits)

lemma maximum_Some:
  "maximum xs = Some m \<longleftrightarrow> m \<in> set xs \<and> (\<forall>x\<in>set xs. x \<le> m)"
proof (induction xs arbitrary: m)
  case Nil
  then show ?case by simp
next
  case (Cons a xs)
  show ?case
  proof (cases "maximum xs")
    case None
    then have "xs = []" by (simp add: maximum_None)
    with None show ?thesis by auto
  next
    case (Some k)
    then have k: "k \<in> set xs" "\<forall>x\<in>set xs. x \<le> k"
      using Cons.IH [of k] by auto
    have "maximum (a # xs) = Some (max a k)"
      using Some by simp
    moreover have "max a k = m \<longleftrightarrow> m \<in> set (a # xs) \<and> (\<forall>x\<in>set (a # xs). x \<le> m)"
    proof
      assume "max a k = m"
      then show "m \<in> set (a # xs) \<and> (\<forall>x\<in>set (a # xs). x \<le> m)"
        using k by (auto simp: max_def)
    next
      assume r: "m \<in> set (a # xs) \<and> (\<forall>x\<in>set (a # xs). x \<le> m)"
      then have "a \<le> m" "k \<le> m" using k(1) by auto
      moreover have "m \<le> max a k" using r k(2) by (auto simp: max_def)
      ultimately show "max a k = m" by (simp add: max_def split: if_splits)
    qed
    ultimately show ?thesis by simp
  qed
qed

lemma max_tarih_Some:
  "max_tarih tbl p b = Some m \<longleftrightarrow>
     (\<exists>r\<in>set tbl. OrigPath r = p \<and> Timestamp r \<le> b \<and> Timestamp r = m) \<and>
     (\<forall>r\<in>set tbl. OrigPath r = p \<and> Timestamp r \<le> b \<longrightarrow> Timestamp r \<le> m)"
  by (auto simp: max_tarih_def maximum_Some)

lemma max_tarih_None:
  "max_tarih tbl p b = None \<longleftrightarrow> \<not> (\<exists>r\<in>set tbl. OrigPath r = p \<and> Timestamp r \<le> b)"
  by (auto simp: max_tarih_def maximum_None filter_empty_conv)

lemma set_group_by_adi: "set (group_by_adi rs) \<subseteq> set rs"
  by (induction rs rule: group_by_adi.induct) auto

lemma paths_group_by_adi: "OrigPath ` set (group_by_adi rs) = OrigPath ` set rs"
proof (induction rs rule: group_by_adi.induct)
  case 1
  then show ?case by simp
next
  case (2 r rs)
  then show ?case by (auto simp: image_iff) 
qed

lemma distinct_group_by_adi: "distinct (map OrigPath (group_by_adi rs))"
proof (induction rs rule: group_by_adi.induct)
  case 1
  then show ?case by simp
next
  case (2 r rs)
  have "OrigPath r \<notin> OrigPath ` set (filter (\<lambda>x. OrigPath x \<noteq> OrigPath r) rs)"
    by auto
  then have "OrigPath r \<notin> OrigPath ` set (group_by_adi (filter (\<lambda>x. OrigPath x \<noteq> OrigPath r) rs))"
    by (simp add: paths_group_by_adi)
  with 2 show ?case by simp
qed

lemma distinct_order_by_dizin_adi:
  "distinct (map OrigPath rs) \<Longrightarrow> distinct (map OrigPath (order_by_dizin_adi rs))"
proof -
  assume d: "distinct (map OrigPath rs)"
  have "mset (map OrigPath (order_by_dizin_adi rs)) = mset (map OrigPath rs)"
    by (simp add: order_by_dizin_adi_def)
  then show ?thesis
    using d by (metis distinct_count_atmost_1 set_mset_mset)
qed

text \<open>The rows that \<open>GetFilesAtTimestamp\<close> and \<open>GetFilesInDirAtTime\<close> select.\<close>

lemma GetFilesAtTimestamp_one_per_path:
  assumes "GetFilesAtTimestamp None tbl t = Inr fs"
  shows "distinct (map OrigPath_info fs)"
    and "p \<in> set (map OrigPath_info fs) \<longleftrightarrow>
           (\<exists>r\<in>set tbl. OrigPath r = p \<and> Timestamp r \<le> t + time_Second)"
    and "f \<in> set fs \<Longrightarrow>
           \<exists>r\<in>set tbl. OrigPath r = OrigPath_info f \<and> Timestamp r = LatestVersion f \<and>
             Timestamp r \<le> t + time_Second \<and>
             (\<forall>r'\<in>set tbl. OrigPath r' = OrigPath r \<and> Timestamp r' \<le> t + time_Second
                \<longrightarrow> Timestamp r' \<le> Timestamp r)"
proof -
  define sel where "sel = filter (\<lambda>d1. max_tarih tbl (OrigPath d1) (t + time_Second) = Some (Timestamp d1)) tbl"
  define grp where "grp = order_by_dizin_adi (group_by_adi sel)"
  define mk where "mk = (\<lambda>d1::FileEntry.
                 \<lparr>OrigPath_info = OrigPath d1,
                  Directory_info = Directory d1,
                  FileName = filepath_Base (OrigPath d1),
                  LatestVersion = Timestamp d1,
                  VersionCount =
                    length (filter (\<lambda>d2. OrigPath d2 = OrigPath d1 \<and> Timestamp d2 \<le> t + time_Second) tbl),
                  Size_info = Size d1\<rparr>)"
  have fs: "fs = map mk grp"
    using assms by (simp add: GetFilesAtTimestamp_def Let_def sel_def grp_def mk_def)
  have paths: "map OrigPath_info fs = map OrigPath grp"
    by (simp add: fs mk_def)
  have setgrp: "set grp = set (group_by_adi sel)"
    by (simp add: grp_def order_by_dizin_adi_def)
  show "distinct (map OrigPath_info fs)"
    unfolding paths grp_def
    by (rule distinct_order_by_dizin_adi) (rule distinct_group_by_adi)
  have "OrigPath ` set grp = OrigPath ` set sel"
    by (simp add: setgrp paths_group_by_adi)
  also have "\<dots> = {p. \<exists>r\<in>set tbl. OrigPath r = p \<and> Timestamp r \<le> t + time_Second}"
  proof (intro set_eqI iffI)
    fix q assume "q \<in> OrigPath ` set sel"
    then show "q \<in> {p. \<exists>r\<in>set tbl. OrigPath r = p \<and> Timestamp r \<le> t + time_Second}"
      by (auto simp: sel_def max_tarih_Some)
  next
    fix q assume "q \<in> {p. \<exists>r\<in>set tbl. OrigPath r = p \<and> Timestamp r \<le> t + time_Second}"
    then have "max_tarih tbl q (t + time_Second) \<noteq> None"
      by (simp add: max_tarih_None)
    then obtain m where m: "max_tarih tbl q (t + time_Second) = Some m" by auto
    then obtain r where "r \<in> set tbl" "OrigPath r = q" "Timestamp r = m"
      by (auto simp: max_tarih_Some)
    with m have "r \<in> set sel" by (simp add: sel_def)
    with \<open>OrigPath r = q\<close> show "q \<in> OrigPath ` set sel" by auto
  qed
  finally have img: "OrigPath ` set grp = {p. \<exists>r\<in>set tbl. OrigPath r = p \<and> Timestamp r \<le> t + time_Second}" .
  show "p \<in> set (map OrigPath_info fs) \<longleftrightarrow>
           (\<exists>r\<in>set tbl. OrigPath r = p \<and> Timestamp r \<le> t + time_Second)"
    unfolding paths using img by auto
  show "\<exists>r\<in>set tbl. OrigPath r = OrigPath_info f \<and> Timestamp r = LatestVersion f \<and>
             Timestamp r \<le> t + time_Second \<and>
             (\<forall>r'\<in>set tbl. OrigPath r' = OrigPath r \<and> Timestamp r' \<le> t + time_Second
                \<longrightarrow> Timestamp r' \<le> Timestamp r)" if "f \<in> set fs"
  proof -
    from that obtain d where d: "d \<in> set grp" "f = mk d" by (auto simp: fs)
    then have "d \<in> set sel" using setgrp set_group_by_adi by blast
    then have "d \<in> set tbl" "max_tarih tbl (OrigPath d) (t + time_Second) = Some (Timestamp d)"
      by (auto simp: sel_def)
    then show ?thesis
      using d(2) by (auto simp: mk_def max_tarih_Some intro!: bexI [of _ d])
  qed
qed

text \<open>
  Claim C3 says that the files at an instant are one version for each path that has a
  version at or before the instant plus one second. \<open>GetFilesAtTime\<close> compares with the
  instant itself: the version \<open>v_half\<close>, half a second after \<open>T1\<close>, is not returned
  for \<open>T1\<close>, while \<open>GetFileAtTime\<close>, \<open>GetFilesInDirAtTime\<close> and
  \<open>GetFilesAtTimestamp\<close> return it. Its join also returns every row of a path that carries
  the latest instant, so a row stored twice is returned twice.
\<close>

theorem GetFilesAtTime_no_slack:
  "Timestamp v_half \<le> T1 + time_Second \<and>
   GetFilesAtTime None [v_half] T1 = Inr [] \<and>
   GetFileAtTime None [v_half] ''/data/b.txt'' T1 = Inr (Some v_half) \<and>
   GetFilesInDirAtTime None [v_half] ''/data/'' T1 = Inr [v_half] \<and>
   (\<exists>fs. GetFilesAtTimestamp None [v_half] T1 = Inr fs \<and> map OrigPath_info fs = [''/data/b.txt'']) \<and>
   GetFilesAtTime None [v1, v1] T1 = Inr [v1, v1]"
  by (simp add: GetFilesAtTime_def GetFileAtTime_def GetFilesInDirAtTime_def GetFilesAtTimestamp_def
      max_tarih_def order_by_tarih_desc_def order_by_dizin_adi_def v_half_def v1_def T1_def
      time_Second_def ascii_lower_def)

section \<open>Decryption and the round trip of sealing\<close>

text \<open>
  Claim C10. Under a 32-byte key, \<open>Decrypt\<close> answers every input of fewer than 12 bytes
  with the error \<open>ciphertext too short\<close>; it panics on no input, key or library; and
  when it returns a plaintext the input had at least 12 bytes and was split into its first
  12 bytes, the nonce, and the rest.
\<close>

theorem Decrypt_short_input_rejected:
  "(length key = 32 \<and> length data < 12 \<longrightarrow>
      Decrypt lib data key = Inl (Error ''ciphertext too short'')) \<and>
   (\<forall>m. Decrypt lib data key \<noteq> Inl (Panic m)) \<and>
   (\<forall>plain. Decrypt lib data key = Inr plain \<longrightarrow>
      12 \<le> length data \<and> gcm_Open lib key (take 12 data) (drop 12 data) = Some plain)"
  by (auto simp: Decrypt_def aes_NewCipher_def gcm_NonceSize_def slice_to_def slice_from_def
      Let_def split: option.splits sum.splits if_splits)

theorem Decrypt_short_input_rejected_witness:
  "length example_key = 32 \<and> length [1, 2, 3 :: 8 word] < 12 \<and>
   Decrypt example_lib [1, 2, 3] example_key = Inl (Error ''ciphertext too short'') \<and>
   Decrypt example_lib (example_nonce @ [104, 105] @ example_nonce) example_key = Inr [104, 105] \<and>
   12 \<le> length (example_nonce @ [104, 105] @ example_nonce)"
proof -
  have k: "length example_key = 32"
    by (simp add: example_key_def)
  have ev: "Decrypt example_lib (example_nonce @ [104, 105] @ example_nonce) example_key = Inr [104, 105]"
    by (simp add: Decrypt_def aes_NewCipher_def gcm_NonceSize_def slice_to_def slice_from_def
        example_lib_def example_key_def example_nonce_def)
  show ?thesis
    using Decrypt_short_input_rejected [of example_key "[1, 2, 3]" example_lib]
      Decrypt_short_input_rejected [of example_key "example_nonce @ [104, 105] @ example_nonce" example_lib]
      k ev
    by simp
qed

text \<open>
  Claim C8. With AES-GCM opening what it sealed and gzip reading back what it wrote, for
  every byte string, every 32-byte key and every 12-byte nonce read from the random source,
  \<open>CompressAndEncrypt\<close> returns the nonce followed by the sealed compressed data, and
  \<open>DecryptAndDecompress\<close> returns the byte string from it.
\<close>

theorem seal_open_round_trip:
  assumes "\<forall>k n p. length k = 32 \<longrightarrow> length n = 12 \<longrightarrow>
             gcm_Open lib k n (gcm_Seal lib k n p) = Some p"
    and "\<forall>y. gzip_ReadAll lib (gzip_Write lib y) = Inr y"
    and "length key = 32"
    and "length nonce = 12"
  shows "\<exists>c. CompressAndEncrypt lib (Inr nonce) x key = Inr c \<and>
             c = nonce @ gcm_Seal lib key nonce (gzip_Write lib x) \<and>
             DecryptAndDecompress lib c key = Inr x"
  using assms
  by (simp add: CompressAndEncrypt_def DecryptAndDecompress_def Encrypt_def Decrypt_def
      aes_NewCipher_def gcm_NonceSize_def slice_to_def slice_from_def)

theorem seal_open_round_trip_witness:
  "length example_key = 32 \<and> length example_nonce = 12 \<and>
   (\<exists>c. CompressAndEncrypt example_lib (Inr example_nonce) [104, 105] example_key = Inr c \<and>
        c = example_nonce @ gcm_Seal example_lib example_key example_nonce
              (gzip_Write example_lib [104, 105]) \<and>
        DecryptAndDecompress example_lib c example_key = Inr [104, 105])"
proof -
  have a: "\<forall>k n p. length k = 32 \<longrightarrow> length n = 12 \<longrightarrow>
      gcm_Open example_lib k n (gcm_Seal example_lib k n p) = Some p"
    by (simp add: example_lib_def)
  have b: "\<forall>y. gzip_ReadAll example_lib (gzip_Write example_lib y) = Inr y"
    by (simp add: example_lib_def)
  have k: "length example_key = 32"
    by (simp add: example_key_def)
  have n: "length example_nonce = 12"
    by (simp add: example_nonce_def)
  show ?thesis
    using seal_open_round_trip [OF a b k n, of "[104, 105]"] k n by simp
qed

section \<open>The requests of a restore\<close>

lemma GetFilesInDirAtTime_rows:
  assumes "GetFilesInDirAtTime drv tbl d t = Inr fs"
  shows "set fs \<subseteq> set tbl"
proof -
  have "drv = None"
    using assms by (cases drv) (simp_all add: GetFilesInDirAtTime_def Let_def)
  then have "fs = group_by_adi
                 (filter (\<lambda>d1. sql_like (d @ ''%'') (OrigPath d1) \<and>
                                max_tarih tbl (OrigPath d1) (t + time_Second) = Some (Timestamp d1)) tbl)"
    using assms by (simp add: GetFilesInDirAtTime_def Let_def)
  then show ?thesis
    using set_group_by_adi by fastforce
qed

text \<open>
  Claim C9. Every pair that \<open>RestoreFile\<close> or \<open>RestoreDirectory\<close> posts to the
  restore-files endpoint is built from a version that the catalog query returned: its
  \<open>hashed_name\<close> is the version's hashed name and its \<open>target_date\<close> is the version's
  own timestamp, formatted. The requested instant enters only through the catalog query.
\<close>

theorem restore_requests_carry_version_timestamp:
  "(\<forall>req. RestoreFile_request loc drv s p t = Inr req \<longrightarrow>
      (\<exists>v. GetFileAtTime drv (catalog s) p t = Inr (Some v) \<and> v \<in> set (catalog s) \<and>
           OrigPath v = p \<and>
           req = [(HashedName v, Format_2006_01_02T15_04_05 loc (Timestamp v))])) \<and>
   (\<forall>req. RestoreDirectory_request loc drv s d t = Inr req \<longrightarrow>
      (\<exists>fs. GetFilesInDirAtTime drv (catalog s) d t = Inr fs \<and> set fs \<subseteq> set (catalog s) \<and>
            req = map (\<lambda>v. (HashedName v, Format_2006_01_02T15_04_05 loc (Timestamp v))) fs))"
proof (intro conjI allI impI)
  fix req
  assume a: "RestoreFile_request loc drv s p t = Inr req"
  then obtain v where v: "GetFileAtTime drv (catalog s) p t = Inr (Some v)"
    and req: "req = [(HashedName v, Format_2006_01_02T15_04_05 loc (Timestamp v))]"
    by (auto simp: RestoreFile_request_def split: if_splits sum.splits option.splits)
  have "drv = None"
    using v by (cases drv) (simp_all add: GetFileAtTime_def Let_def)
  with v have "limit_1 (order_by_tarih_desc
      (filter (\<lambda>r. OrigPath r = p \<and> Timestamp r \<le> t + time_Second) (catalog s))) = Some v"
    by (simp add: GetFileAtTime_def Let_def)
  from limit_1_order_by_Some [OF this] have "v \<in> set (catalog s)" "OrigPath v = p"
    by auto
  with v req
  show "\<exists>v. GetFileAtTime drv (catalog s) p t = Inr (Some v) \<and> v \<in> set (catalog s) \<and>
           OrigPath v = p \<and>
           req = [(HashedName v, Format_2006_01_02T15_04_05 loc (Timestamp v))]"
    by blast
next
  fix req
  assume a: "RestoreDirectory_request loc drv s d t = Inr req"
  then obtain fs where fs: "GetFilesInDirAtTime drv (catalog s) d t = Inr fs"
    and req: "req = map (\<lambda>v. (HashedName v, Format_2006_01_02T15_04_05 loc (Timestamp v))) fs"
    by (auto simp: RestoreDirectory_request_def split: if_splits sum.splits)
  from GetFilesInDirAtTime_rows [OF fs] fs req
  show "\<exists>fs. GetFilesInDirAtTime drv (catalog s) d t = Inr fs \<and> set fs \<subseteq> set (catalog s) \<and>
            req = map (\<lambda>v. (HashedName v, Format_2006_01_02T15_04_05 loc (Timestamp v))) fs"
    by blast
qed

theorem restore_requests_carry_version_timestamp_witness:
  "RestoreFile_request 0 None svc1 ''/data/a.txt'' T3 = Inr [(name_a, ''2024-01-15T10:00:00'')] \<and>
   RestoreDirectory_request 0 None svc1 ''/data/'' T3 = Inr [(name_a, ''2024-01-15T10:00:00'')] \<and>
   GetFileAtTime None (catalog svc1) ''/data/a.txt'' T3 = Inr (Some v1) \<and>
   GetFilesInDirAtTime None (catalog svc1) ''/data/'' T3 = Inr [v1] \<and>
   Format_2006_01_02T15_04_05 0 (Timestamp v1) = ''2024-01-15T10:00:00'' \<and>
   Format_2006_01_02T15_04_05 0 T3 = ''2024-01-15T10:00:02''"
proof -
  have j: "Format_2006_01_02T15_04_05 0 T1 = ''2024-01-15T10:00:00''"
    by code_simp
  have k: "Format_2006_01_02T15_04_05 0 T3 = ''2024-01-15T10:00:02''"
    by code_simp
  have h: "GetFileAtTime None (catalog svc1) ''/data/a.txt'' T3 = Inr (Some v1)"
    by (simp add: svc1_def GetFileAtTime_def order_by_tarih_desc_def v1_def T1_def T3_def
        time_Second_def)
  have i: "GetFilesInDirAtTime None (catalog svc1) ''/data/'' T3 = Inr [v1]"
    by (simp add: svc1_def GetFilesInDirAtTime_def max_tarih_def v1_def T1_def T3_def
        time_Second_def ascii_lower_def)
  have f: "RestoreFile_request 0 None svc1 ''/data/a.txt'' T3 = Inr [(name_a, ''2024-01-15T10:00:00'')]"
    using j by (simp add: RestoreFile_request_def h) (simp add: svc1_def v1_def)
  have g: "RestoreDirectory_request 0 None svc1 ''/data/'' T3 = Inr [(name_a, ''2024-01-15T10:00:00'')]"
    using j by (simp add: RestoreDirectory_request_def i) (simp add: svc1_def v1_def)
  show ?thesis
    using restore_requests_carry_version_timestamp [of 0 None svc1 "''/data/a.txt''" T3 "''/data/''"]
      f g h i j k
    by (simp add: v1_def)
qed

section \<open>The scanner and the decision to back up\<close>








section \<open>A backup session\<close>

subsection \<open>The packing loop\<close>

lemma wrap64_small:
  "0 \<le> a \<Longrightarrow> a \<le> maxTarSize \<Longrightarrow> 0 \<le> e \<Longrightarrow> e \<le> 2 ^ 63 - 1 - maxTarSize \<Longrightarrow> wrap64 (a + e) = a + e"
  unfolding wrap64_def
  by (rule signed_take_bit_int_eq_self) (simp_all add: maxTarSize_def)

lemma sum_list_nonneg_butlast:
  "\<forall>m\<in>set xs. (0::int) \<le> m \<Longrightarrow> sum_list (butlast xs) \<le> sum_list xs"
  by (induction xs) (auto simp: sum_list_nonneg)

lemma pack_inv_close:
  assumes "pack_inv ss"
  shows "sealed_ok (close_tar ss)"
proof -
  have "sum_list (butlast (members ss)) \<le> maxTarSize"
    using assms sum_list_nonneg_butlast [of "members ss"] by (simp add: pack_inv_def)
  then show ?thesis
    using assms by (auto simp: pack_inv_def sealed_ok_def close_tar_def)
qed

lemma pack_inv_sealed_ok: "pack_inv ss \<Longrightarrow> sealed_ok ss"
  by (auto simp: pack_inv_def sealed_ok_def dest: in_set_butlastD)

lemma pack_inv_emit: "pack_inv (emit ph ss) = pack_inv ss"
  by (simp add: pack_inv_def emit_def)

lemma sealed_ok_emit: "sealed_ok (emit ph ss) = sealed_ok ss"
  by (simp add: sealed_ok_def emit_def)

lemma add_member_small:
  assumes "pack_inv ss" and "0 \<le> e" and "e \<le> 2 ^ 63 - 1 - maxTarSize"
    and "\<not> maxTarSize < tarSize (add_member env f p e ss)"
  shows "pack_inv (add_member env f p e ss)"
proof -
  have "0 \<le> tarSize ss"
    using assms(1) by (simp add: pack_inv_def sum_list_nonneg)
  then have "tarSize (add_member env f p e ss) = tarSize ss + e"
    using assms by (simp add: add_member_def pack_inv_def wrap64_small)
  then show ?thesis
    using assms by (auto simp: add_member_def pack_inv_def)
qed

lemma add_member_big:
  assumes "pack_inv ss" and "0 \<le> e" and "e \<le> 2 ^ 63 - 1 - maxTarSize"
    and "maxTarSize < tarSize (add_member env f p e ss)"
  shows "(\<forall>sh\<in>set (sealed (close_tar (add_member env f p e ss))).
            sum_list (butlast sh) \<le> maxTarSize \<and> maxTarSize < sum_list sh) \<and>
         snd ` set (uploaded (close_tar (add_member env f p e ss)))
           \<subseteq> set (sealed (close_tar (add_member env f p e ss)))"
proof -
  have "0 \<le> tarSize ss"
    using assms(1) by (simp add: pack_inv_def sum_list_nonneg)
  then have "tarSize (add_member env f p e ss) = tarSize ss + e"
    using assms by (simp add: add_member_def pack_inv_def wrap64_small)
  then show ?thesis
    using assms by (auto simp: add_member_def close_tar_def pack_inv_def)
qed

lemma next_tar_inv:
  assumes "\<forall>sh\<in>set (sealed ss). sum_list (butlast sh) \<le> maxTarSize \<and> maxTarSize < sum_list sh"
    and "snd ` set (uploaded ss) \<subseteq> set (sealed ss)" and "members ss \<in> set (sealed ss)"
  shows "pack_inv (next_tar (tar_uploaded ss))"
  using assms by (auto simp: next_tar_def tar_uploaded_def pack_inv_def maxTarSize_def)

lemma pack_files_sealed:
  assumes "sizes_ok env" and "pack_inv ss" and "pack_files env i fs ss = (err, ss')"
  shows "sealed_ok ss' \<and> (err = None \<longrightarrow> pack_inv ss')"
  using assms(2,3)
proof (induction fs arbitrary: i ss)
  case Nil
  then show ?case by (auto simp: pack_inv_sealed_ok)
next
  case (Cons f rest)
  let ?ss0 = "emit ''encrypting'' ss"
  have inv0: "pack_inv ?ss0"
    using Cons.prems(1) by (simp add: pack_inv_emit)
  show ?case
  proof (cases "stop_seen env i")
    case True
    with Cons.prems have "ss' = close_tar ss" "err \<noteq> None"
      by auto
    with Cons.prems(1) show ?thesis by (auto simp: pack_inv_close)
  next
    case False
    show ?thesis
    proof (cases "\<exists>p e. pack env i = Packed p e")
      case no: False
      then have "pack_files env (Suc i) rest ?ss0 = (err, ss')"
        using Cons.prems(2) False by (cases "pack env i") simp_all
      from Cons.IH [OF inv0 this] show ?thesis .
    next
      case True
      then obtain p e where pk: "pack env i = Packed p e" by blast
      with assms(1) have e: "0 \<le> e" "e \<le> 2 ^ 63 - 1 - maxTarSize"
        by (auto simp: sizes_ok_def)
      let ?ss1 = "add_member env f p e ?ss0"
      show ?thesis
      proof (cases "tarSize ?ss1 > maxTarSize")
        case small: False
        have inv1: "pack_inv ?ss1"
          using add_member_small [OF inv0 e small] .
        have "pack_files env (Suc i) rest ?ss1 = (err, ss')"
          using Cons.prems(2) False pk small by (simp add: Let_def)
        from Cons.IH [OF inv1 this] show ?thesis .
      next
        case big: True
        let ?ss2 = "emit ''uploading'' (close_tar ?ss1)"
        have s2: "\<forall>sh\<in>set (sealed ?ss2). sum_list (butlast sh) \<le> maxTarSize \<and> maxTarSize < sum_list sh"
          "snd ` set (uploaded ?ss2) \<subseteq> set (sealed ?ss2)"
          using add_member_big [OF inv0 e big] by (simp_all add: emit_def)
        have m2: "members ?ss2 \<in> set (sealed ?ss2)"
          by (simp add: emit_def close_tar_def)
        show ?thesis
        proof (cases "upload_err env (tarPart ?ss2)")
          case (Some m)
          then have "ss' = ?ss2" "err \<noteq> None"
            using Cons.prems(2) False pk big by (auto simp: Let_def)
          then show ?thesis
            using s2 by (auto simp: sealed_ok_def dest: in_set_butlastD)
        next
          case None
          let ?ss3 = "next_tar (tar_uploaded ?ss2)"
          have inv3: "pack_inv ?ss3"
            using next_tar_inv [OF s2 m2] .
          show ?thesis
          proof (cases "create_err env (tarPart ?ss3)")
            case (Some m)
            then have "ss' = ?ss3" "err \<noteq> None"
              using Cons.prems(2) False pk big None by (auto simp: Let_def)
            then show ?thesis
              using inv3 by (simp add: pack_inv_sealed_ok)
          next
            case nc: None
            have "pack_files env (Suc i) rest ?ss3 = (err, ss')"
              using Cons.prems(2) False pk big None nc by (simp add: Let_def)
            from Cons.IH [OF inv3 this] show ?thesis .
          qed
        qed
      qed
    qed
  qed
qed

subsection \<open>The phases of a scan\<close>

lemma visit_emitted:
  "visit hp bl tbl w st = Inr st' \<Longrightarrow> set (emitted st') \<subseteq> set (emitted st) \<union> {''scanning''}"
  by (auto simp: visit_def Let_def
      split: if_splits sum.splits error.splits bool.splits)

lemma walk_emitted:
  "walk hp bl tbl ws st = Inr st' \<Longrightarrow> set (emitted st') \<subseteq> set (emitted st) \<union> {''scanning''}"
proof (induction ws arbitrary: st)
  case Nil
  then show ?case by auto
next
  case (Cons w ws)
  then obtain st1 where "visit hp bl tbl w st = Inr st1" "walk hp bl tbl ws st1 = Inr st'"
    by (auto split: sum.splits)
  then show ?case
    using visit_emitted [of hp bl tbl w st st1] Cons.IH [of st1] by blast
qed

lemma scan_dirs_emitted:
  "scan_dirs hp bl tbl dirs acc = Inr r \<Longrightarrow> set (emitted r) \<subseteq> set (emitted acc) \<union> {''scanning''}"
proof (induction dirs arbitrary: acc)
  case Nil
  then show ?case by auto
next
  case (Cons ws dirs)
  then obtain r1 where r1: "scanDirectoryIncrementalWithProgress hp bl tbl ws (seenPaths acc) = Inr r1"
    and rest: "scan_dirs hp bl tbl dirs
            \<lparr>files = files acc @ files r1,
             scannedCount = scannedCount acc + scannedCount r1,
             skippedCount = skippedCount acc + skippedCount r1,
             seenPaths = seenPaths r1,
             emitted = emitted acc @ [''scanning''] @ emitted r1\<rparr> = Inr r"
    by (auto split: sum.splits)
  have "set (emitted r1) \<subseteq> {''scanning''}"
    using walk_emitted [OF r1 [unfolded scanDirectoryIncrementalWithProgress_def]] by simp
  then show ?case
    using Cons.IH [OF rest] by auto
qed

subsection \<open>What the packing loop leaves unchanged\<close>

lemma pack_files_session:
  assumes "pack_files env i fs ss = (err, ss')"
  shows "backupID ss' = backupID ss \<and> timestamp ss' = timestamp ss \<and>
         set (phases ss') \<subseteq> set (phases ss) \<union> {''encrypting'', ''uploading''} \<and>
         (entries_stamped ss \<longrightarrow> entries_stamped ss')"
  using assms
proof (induction fs arbitrary: i ss)
  case Nil
  then show ?case by auto
next
  case (Cons f rest)
  let ?ss0 = "emit ''encrypting'' ss"
  have step0: "backupID ?ss0 = backupID ss" "timestamp ?ss0 = timestamp ss"
    "set (phases ?ss0) \<subseteq> set (phases ss) \<union> {''encrypting'', ''uploading''}"
    "entries_stamped ss \<longrightarrow> entries_stamped ?ss0"
    by (auto simp: emit_def entries_stamped_def)
  show ?case
  proof (cases "stop_seen env i")
    case True
    with Cons.prems have "ss' = close_tar ss" by auto
    then show ?thesis by (auto simp: close_tar_def entries_stamped_def)
  next
    case False
    show ?thesis
    proof (cases "\<exists>p e. pack env i = Packed p e")
      case no: False
      then have "pack_files env (Suc i) rest ?ss0 = (err, ss')"
        using Cons.prems False by (cases "pack env i") simp_all
      from Cons.IH [OF this] step0 show ?thesis by auto
    next
      case True
      then obtain p e where pk: "pack env i = Packed p e" by blast
      let ?ss1 = "add_member env f p e ?ss0"
      have step1: "backupID ?ss1 = backupID ss" "timestamp ?ss1 = timestamp ss"
        "set (phases ?ss1) \<subseteq> set (phases ss) \<union> {''encrypting'', ''uploading''}"
        "entries_stamped ss \<longrightarrow> entries_stamped ?ss1"
        by (auto simp: emit_def add_member_def entries_stamped_def)
      show ?thesis
      proof (cases "tarSize ?ss1 > maxTarSize")
        case small: False
        have "pack_files env (Suc i) rest ?ss1 = (err, ss')"
          using Cons.prems False pk small by (simp add: Let_def)
        from Cons.IH [OF this] step1 show ?thesis by auto
      next
        case big: True
        let ?ss2 = "emit ''uploading'' (close_tar ?ss1)"
        have step2: "backupID ?ss2 = backupID ss" "timestamp ?ss2 = timestamp ss"
          "set (phases ?ss2) \<subseteq> set (phases ss) \<union> {''encrypting'', ''uploading''}"
          "entries_stamped ss \<longrightarrow> entries_stamped ?ss2"
          by (auto simp: emit_def add_member_def close_tar_def entries_stamped_def)
        show ?thesis
        proof (cases "upload_err env (tarPart ?ss2)")
          case (Some m)
          then have "ss' = ?ss2"
            using Cons.prems False pk big by (auto simp: Let_def)
          then show ?thesis using step2 by simp
        next
          case None
          let ?ss3 = "next_tar (tar_uploaded ?ss2)"
          have step3: "backupID ?ss3 = backupID ss" "timestamp ?ss3 = timestamp ss"
            "set (phases ?ss3) \<subseteq> set (phases ss) \<union> {''encrypting'', ''uploading''}"
            "entries_stamped ss \<longrightarrow> entries_stamped ?ss3"
            by (auto simp: emit_def add_member_def close_tar_def next_tar_def tar_uploaded_def
                entries_stamped_def)
          show ?thesis
          proof (cases "create_err env (tarPart ?ss3)")
            case (Some m)
            then have "ss' = ?ss3"
              using Cons.prems False pk big None by (auto simp: Let_def)
            then show ?thesis using step3 by simp
          next
            case nc: None
            have "pack_files env (Suc i) rest ?ss3 = (err, ss')"
              using Cons.prems False pk big None nc by (simp add: Let_def)
            from Cons.IH [OF this] step3 show ?thesis by auto
          qed
        qed
      qed
    qed
  qed
qed

lemma pack_files_error:
  "pack_files env i fs ss = (Some e, ss') \<Longrightarrow> \<exists>m. e = Error m"
proof (induction fs arbitrary: i ss)
  case Nil
  then show ?case by simp
next
  case (Cons f rest)
  then show ?case
    by (auto simp: Let_def split: if_splits pack_outcome.splits option.splits)
qed

subsection \<open>The commit\<close>

lemma exec_all_sql_insert:
  "exec_all ex sql_insert i es work = Inr w \<Longrightarrow> w = work @ es"
proof (induction es arbitrary: i work)
  case Nil
  then show ?case by simp
next
  case (Cons a es)
  from Cons.prems have "exec_all ex sql_insert (Suc i) es (sql_insert work a) = Inr w"
    by (auto split: option.splits)
  from Cons.IH [OF this] show ?case by (simp add: sql_insert_def)
qed

lemma exec_all_error:
  "exec_all ex ins i es work = Inl e \<Longrightarrow> \<exists>m. e = Error m"
  by (induction es arbitrary: i work) (auto split: option.splits)

lemma AddEntries_cases:
  "AddEntries flt tbl es = (None, tbl @ es) \<or> (\<exists>m. AddEntries flt tbl es = (Some (Error m), tbl))"
  by (auto simp: AddEntries_def split: option.splits sum.splits
      dest: exec_all_sql_insert exec_all_error)

lemma upload_snapshot_result:
  assumes "upload_snapshot env s ss = (err, s', ss')"
  shows "s' = s \<and> sealed ss' = sealed ss \<and> uploaded ss' = uploaded ss \<and>
         catalogEntries ss' = catalogEntries ss \<and> backupID ss' = backupID ss \<and>
         timestamp ss' = timestamp ss \<and> set (phases ss) \<subseteq> set (phases ss') \<and>
         err \<noteq> Some (Error ''backup cancelled'')"
proof -
  obtain r d where ex: "ExportToFile (export_drv env) (export_faults env) (catalog s) [] = (r, d)"
    by (cases "ExportToFile (export_drv env) (export_faults env) (catalog s) []") auto
  have er: "r = None \<or> (\<exists>m. r = Some (Error m))"
    using ex AddEntries_cases [of "export_faults env" "[]" "catalog s"]
    by (auto simp: ExportToFile_def split: option.splits)
  show ?thesis
    using assms ex er
    by (auto simp: upload_snapshot_def Let_def emit_def split: option.splits)
qed

lemma commit_catalog_result:
  assumes "commit_catalog env s ss = (err, s', ss')"
  shows "sealed ss' = sealed ss \<and> uploaded ss' = uploaded ss \<and>
         catalogEntries ss' = catalogEntries ss \<and> backupID ss' = backupID ss \<and>
         timestamp ss' = timestamp ss \<and> err \<noteq> Some (Error ''backup cancelled'') \<and>
         (s' = s \<or>
          (s' = s\<lparr>catalog := catalog s @ catalogEntries ss\<rparr> \<and>
           ''updating_catalog'' \<in> set (phases ss') \<and>
           AddEntries (add_faults env) (catalog s) (catalogEntries ss)
             = (None, catalog s @ catalogEntries ss)))"
proof (cases "length (catalogEntries ss) > 0")
  case False
  then have "upload_snapshot env s ss = (err, s', ss')"
    using assms by (simp add: commit_catalog_def)
  from upload_snapshot_result [OF this] show ?thesis by simp
next
  case True
  let ?ss1 = "emit ''updating_catalog'' ss"
  from AddEntries_cases [of "add_faults env" "catalog s" "catalogEntries ss"]
  show ?thesis
  proof
    assume ok: "AddEntries (add_faults env) (catalog s) (catalogEntries ss)
                  = (None, catalog s @ catalogEntries ss)"
    then have "upload_snapshot env (s\<lparr>catalog := catalog s @ catalogEntries ss\<rparr>) ?ss1 = (err, s', ss')"
      using assms True by (simp add: commit_catalog_def Let_def)
    from upload_snapshot_result [OF this] ok show ?thesis
      by (auto simp: emit_def)
  next
    assume "\<exists>m. AddEntries (add_faults env) (catalog s) (catalogEntries ss) = (Some (Error m), catalog s)"
    then obtain m where "AddEntries (add_faults env) (catalog s) (catalogEntries ss)
        = (Some (Error m), catalog s)"
      by blast
    then have "err = Some (Error (''failed to update catalog: '' @ m))" "s' = s" "ss' = ?ss1"
      using assms True by (simp_all add: commit_catalog_def Let_def)
    then show ?thesis by (simp add: emit_def)
  qed
qed

lemma upload_final_result:
  assumes "upload_final env s ss = (err, s', ss')"
  shows "backupID ss' = backupID ss \<and> timestamp ss' = timestamp ss \<and>
         catalogEntries ss' = catalogEntries ss \<and>
         err \<noteq> Some (Error ''backup cancelled'') \<and>
         (pack_inv ss \<longrightarrow> sealed_ok ss') \<and>
         (s' = s \<or>
          (s' = s\<lparr>catalog := catalog s @ catalogEntries ss\<rparr> \<and>
           ''updating_catalog'' \<in> set (phases ss') \<and>
           AddEntries (add_faults env) (catalog s) (catalogEntries ss)
             = (None, catalog s @ catalogEntries ss)))"
proof -
  let ?ss1 = "close_tar ss"
  let ?ss2 = "emit ''uploading'' ?ss1"
  have c1: "pack_inv ss \<longrightarrow> sealed_ok ?ss1" "pack_inv ss \<longrightarrow> sealed_ok ?ss2"
    "pack_inv ss \<longrightarrow> sealed_ok (tar_uploaded ?ss2)"
    using pack_inv_close [of ss]
    by (auto simp: sealed_ok_emit) (auto simp: sealed_ok_def tar_uploaded_def emit_def close_tar_def)
  have keep: "sealed_ok x \<Longrightarrow> sealed y = sealed x \<Longrightarrow> uploaded y = uploaded x \<Longrightarrow> sealed_ok y"
    for x y by (simp add: sealed_ok_def)
  consider (empty) "\<not> tarSize ?ss1 > 0" "commit_catalog env s ?ss1 = (err, s', ss')"
    | (failed) m where "tarSize ?ss1 > 0" "upload_err env (tarPart ?ss2) = Some m"
        "err = Some (Error (''failed to upload tar: '' @ m))" "s' = s" "ss' = ?ss2"
    | (sent) "tarSize ?ss1 > 0" "commit_catalog env s (tar_uploaded ?ss2) = (err, s', ss')"
    using assms by (auto simp: upload_final_def Let_def split: if_splits option.splits)
  then show ?thesis
  proof cases
    case empty
    from commit_catalog_result [OF empty(2)] c1(1) show ?thesis
      by (auto simp: close_tar_def intro: keep)
  next
    case failed
    then show ?thesis using c1(2) by (simp add: emit_def close_tar_def)
  next
    case sent
    from commit_catalog_result [OF sent(2)] c1(3) show ?thesis
      by (auto simp: close_tar_def emit_def tar_uploaded_def intro: keep)
  qed
qed

subsection \<open>The whole of \<open>Run\<close>\<close>

lemma Run_shapes:
  assumes "Run env s0 = (err, s', ss)"
  obtains
    (busy) "isRunning s0" "s' = s0" "ss = new_session"
  | (early) "\<not> isRunning s0" "s' = s0\<lparr>isRunning := False, shouldStop := False\<rparr>"
      "sealed ss = []" "uploaded ss = []" "catalogEntries ss = []"
      "set (phases ss) \<subseteq> {''scanning'', ''encrypting'', ''complete''}"
      "DeviceID s0 \<noteq> 0 \<and> EncryptionKey s0 \<noteq> []
         \<longrightarrow> backupID ss = Format_20060102_150405 (zone env) (now_start env)"
  | (packing) sc init res where "\<not> isRunning s0" "DeviceID s0 \<noteq> 0" "EncryptionKey s0 \<noteq> []"
      "scan_dirs (HashPath env) (Blacklist s0) (catalog s0) (walks env)
          \<lparr>files = [], scannedCount = 0, skippedCount = 0, seenPaths = {},
           emitted = [''scanning'']\<rparr> = Inr sc"
      "init = new_session\<lparr>backupID := Format_20060102_150405 (zone env) (now_start env),
                           phases := emitted sc @ [''scanning'', ''encrypting''],
                           timestamp := now_pack env\<rparr>"
      "pack_files env 0 (files sc) init = res"
      "case res of
         (Some e, ss3) \<Rightarrow> err = Some e \<and> s' = s0\<lparr>isRunning := False, shouldStop := False\<rparr> \<and> ss = ss3
       | (None, ss3) \<Rightarrow>
           upload_final env (s0\<lparr>isRunning := False, shouldStop := False\<rparr>) ss3 = (err, s', ss)"
proof (cases "isRunning s0")
  case True
  then have "s' = s0" "ss = new_session"
    using assms by (simp_all add: Run_def)
  with True show ?thesis by (rule busy)
next
  case nr: False
  let ?s = "s0\<lparr>isRunning := False, shouldStop := False\<rparr>"
  let ?st0 = "\<lparr>files = [], scannedCount = 0, skippedCount = 0, seenPaths = {},
           emitted = [''scanning'']\<rparr>"
  show ?thesis
  proof (cases "DeviceID s0 = 0 \<or> EncryptionKey s0 = [] \<or> mkdir_err env \<noteq> None")
    case True
    then show ?thesis
      using assms nr
      by (intro early) (auto simp: Run_def Let_def new_session_def split: if_splits option.splits)
  next
    case pre: False
    show ?thesis
    proof (cases "scan_dirs (HashPath env) (Blacklist s0) (catalog s0) (walks env) ?st0")
      case (Inl e)
      then show ?thesis
        using assms nr pre
        by (intro early) (auto simp: Run_def Let_def new_session_def)
    next
      case (Inr sc)
      have em: "x = ''scanning''" if "x \<in> set (emitted sc)" for x
        using scan_dirs_emitted [OF Inr] that by auto
      show ?thesis
      proof (cases "length (files sc) = 0 \<or> create_err env 1 \<noteq> None")
        case True
        then show ?thesis
          using assms nr pre Inr em
          by (intro early) (auto simp: Run_def Let_def new_session_def split: if_splits dest: em)
      next
        case False
        define init where "init = new_session\<lparr>backupID := Format_20060102_150405 (zone env) (now_start env),
                           phases := emitted sc @ [''scanning'', ''encrypting''],
                           timestamp := now_pack env\<rparr>"
        show ?thesis
        proof (rule packing [OF nr _ _ _ init_def refl])
          show "DeviceID s0 \<noteq> 0" "EncryptionKey s0 \<noteq> []" using pre by auto
          show "scan_dirs (HashPath env) (Blacklist s0) (catalog s0) (walks env) ?st0 = Inr sc"
            using Inr pre by simp
          show "case pack_files env 0 (files sc) init of
             (Some e, ss3) \<Rightarrow> err = Some e \<and> s' = ?s \<and> ss = ss3
           | (None, ss3) \<Rightarrow> upload_final env ?s ss3 = (err, s', ss)"
            using assms nr pre Inr False
            by (auto simp: Run_def Let_def init_def new_session_def split: prod.splits option.splits)
        qed
      qed
    qed
  qed
qed

lemma init_pack_inv:
  "pack_inv (new_session\<lparr>backupID := b, phases := ph, timestamp := t\<rparr>)"
  by (simp add: pack_inv_def new_session_def maxTarSize_def)

lemma Run_result:
  assumes "Run env s0 = (err, s', ss)"
  shows "(sizes_ok env \<longrightarrow> sealed_ok ss)"
    and "catalog s' = catalog s0 \<or>
         (''updating_catalog'' \<in> set (phases ss) \<and> catalog s' = catalog s0 @ catalogEntries ss \<and>
          AddEntries (add_faults env) (catalog s0) (catalogEntries ss) = (None, catalog s'))"
    and "err = Some (Error ''backup cancelled'') \<longrightarrow> catalog s' = catalog s0"
    and "\<not> isRunning s0 \<and> DeviceID s0 \<noteq> 0 \<and> EncryptionKey s0 \<noteq> []
           \<longrightarrow> backupID ss = Format_20060102_150405 (zone env) (now_start env)"
    and "\<forall>e\<in>set (catalogEntries ss). Timestamp e = now_pack env"
proof -
  have "(sizes_ok env \<longrightarrow> sealed_ok ss) \<and>
    (catalog s' = catalog s0 \<or>
         (''updating_catalog'' \<in> set (phases ss) \<and> catalog s' = catalog s0 @ catalogEntries ss \<and>
          AddEntries (add_faults env) (catalog s0) (catalogEntries ss) = (None, catalog s'))) \<and>
    (err = Some (Error ''backup cancelled'') \<longrightarrow> catalog s' = catalog s0) \<and>
    (\<not> isRunning s0 \<and> DeviceID s0 \<noteq> 0 \<and> EncryptionKey s0 \<noteq> []
           \<longrightarrow> backupID ss = Format_20060102_150405 (zone env) (now_start env)) \<and>
    (\<forall>e\<in>set (catalogEntries ss). Timestamp e = now_pack env)"
    using assms
  proof (cases rule: Run_shapes)
    case busy
    then show ?thesis by (simp add: new_session_def sealed_ok_def)
  next
    case early
    then show ?thesis by (simp add: sealed_ok_def)
  next
    case (packing sc init res)
    let ?s = "s0\<lparr>isRunning := False, shouldStop := False\<rparr>"
    have inv: "pack_inv init"
      unfolding packing(5) by (rule init_pack_inv)
    have st: "entries_stamped init" "timestamp init = now_pack env"
      "backupID init = Format_20060102_150405 (zone env) (now_start env)"
      by (simp_all add: packing(5) entries_stamped_def new_session_def)
    obtain r ss3 where res: "res = (r, ss3)" by (cases res) auto
    from packing(6) res have pf: "pack_files env 0 (files sc) init = (r, ss3)" by simp
    note ps = pack_files_session [OF pf]
    have ent3: "entries_stamped ss3" "timestamp ss3 = now_pack env"
      "backupID ss3 = Format_20060102_150405 (zone env) (now_start env)"
      using ps st by auto
    show ?thesis
    proof (cases r)
      case (Some e)
      with packing(7) res have fin: "err = Some e" "s' = ?s" "ss = ss3" by auto
      have "sizes_ok env \<longrightarrow> sealed_ok ss"
        using pack_files_sealed [OF _ inv pf] fin by blast
      then show ?thesis
        using fin ent3 packing(1,2,3) by (auto simp: entries_stamped_def)
    next
      case None
      with packing(7) res have uf: "upload_final env ?s ss3 = (err, s', ss)" by auto
      note u = upload_final_result [OF uf]
      have "sizes_ok env \<longrightarrow> pack_inv ss3"
        using pack_files_sealed [OF _ inv pf] None by blast
      then have "sizes_ok env \<longrightarrow> sealed_ok ss" using u by blast
      moreover have "catalog s' = catalog s0 \<or>
         (''updating_catalog'' \<in> set (phases ss) \<and> catalog s' = catalog s0 @ catalogEntries ss \<and>
          AddEntries (add_faults env) (catalog s0) (catalogEntries ss) = (None, catalog s'))"
        using u by auto
      moreover have "err \<noteq> Some (Error ''backup cancelled'')" using u by blast
      moreover have "\<forall>e\<in>set (catalogEntries ss). Timestamp e = now_pack env"
        using u ent3 by (auto simp: entries_stamped_def)
      moreover have "backupID ss = Format_20060102_150405 (zone env) (now_start env)"
        using u ent3 by auto
      ultimately show ?thesis by blast
    qed
  qed
  then show "(sizes_ok env \<longrightarrow> sealed_ok ss)"
    and "catalog s' = catalog s0 \<or>
         (''updating_catalog'' \<in> set (phases ss) \<and> catalog s' = catalog s0 @ catalogEntries ss \<and>
          AddEntries (add_faults env) (catalog s0) (catalogEntries ss) = (None, catalog s'))"
    and "err = Some (Error ''backup cancelled'') \<longrightarrow> catalog s' = catalog s0"
    and "\<not> isRunning s0 \<and> DeviceID s0 \<noteq> 0 \<and> EncryptionKey s0 \<noteq> []
           \<longrightarrow> backupID ss = Format_20060102_150405 (zone env) (now_start env)"
    and "\<forall>e\<in>set (catalogEntries ss). Timestamp e = now_pack env"
    by blast+
qed

text \<open>
  Claim C5. \<open>AddEntries\<close> either appends every entry of the list or, on any failure of
  \<open>Begin\<close>, \<open>Prepare\<close>, an \<open>Exec\<close> or \<open>Commit\<close>, returns the error and leaves the
  table as it was. \<open>Run\<close> changes the catalog only through a successful \<open>AddEntries\<close>,
  after the phase \<open>updating_catalog\<close>: a session that is cancelled, or that ends before
  that phase, leaves the catalog and so the latest version of every path unchanged.
\<close>

theorem AddEntries_all_or_none:
  "(AddEntries flt tbl es = (None, tbl @ es) \<or>
    (\<exists>m. AddEntries flt tbl es = (Some (Error m), tbl))) \<and>
   (Run env s0 = (err, s', ss) \<longrightarrow>
      (catalog s' = catalog s0 \<or>
       (''updating_catalog'' \<in> set (phases ss) \<and>
        catalog s' = catalog s0 @ catalogEntries ss \<and>
        AddEntries (add_faults env) (catalog s0) (catalogEntries ss) = (None, catalog s'))) \<and>
      (err = Some (Error ''backup cancelled'') \<longrightarrow> catalog s' = catalog s0) \<and>
      (''updating_catalog'' \<notin> set (phases ss) \<longrightarrow>
         GetLatestVersion drv (catalog s') p = GetLatestVersion drv (catalog s0) p))"
proof (intro conjI impI)
  show "AddEntries flt tbl es = (None, tbl @ es) \<or>
    (\<exists>m. AddEntries flt tbl es = (Some (Error m), tbl))"
    by (rule AddEntries_cases)
next
  assume r: "Run env s0 = (err, s', ss)"
  show "catalog s' = catalog s0 \<or>
       (''updating_catalog'' \<in> set (phases ss) \<and>
        catalog s' = catalog s0 @ catalogEntries ss \<and>
        AddEntries (add_faults env) (catalog s0) (catalogEntries ss) = (None, catalog s'))"
    by (rule Run_result(2) [OF r])
  assume "err = Some (Error ''backup cancelled'')"
  then show "catalog s' = catalog s0"
    using Run_result(3) [OF r] by simp
next
  assume r: "Run env s0 = (err, s', ss)" and "''updating_catalog'' \<notin> set (phases ss)"
  then have "catalog s' = catalog s0"
    using Run_result(2) [OF r] by blast
  then show "GetLatestVersion drv (catalog s') p = GetLatestVersion drv (catalog s0) p"
    by simp
qed

theorem AddEntries_all_or_none_witness:
  "AddEntries no_faults [v1] [v3, v_half] = (None, [v1, v3, v_half]) \<and>
   AddEntries (no_faults\<lparr>exec_err := (\<lambda>i. if i = 1 then Some ''disk I/O error'' else None)\<rparr>)
      [v1] [v3, v_half] = (Some (Error ''disk I/O error''), [v1]) \<and>
   fst (Run env_cancel svc1) = Some (Error ''backup cancelled'') \<and>
   ''updating_catalog'' \<notin> set (phases (snd (snd (Run env_cancel svc1)))) \<and>
   length (catalogEntries (snd (snd (Run env_cancel svc1)))) = 1 \<and>
   catalog (fst (snd (Run env_cancel svc1))) = [v1] \<and>
   GetLatestVersion None (catalog (fst (snd (Run env_cancel svc1)))) ''/data/a.txt'' = Inr (Some v1)"
proof -
  have a: "AddEntries no_faults [v1] [v3, v_half] = (None, [v1, v3, v_half])"
    by (simp add: AddEntries_def no_faults_def sql_insert_def)
  have b: "AddEntries (no_faults\<lparr>exec_err := (\<lambda>i. if i = 1 then Some ''disk I/O error'' else None)\<rparr>)
      [v1] [v3, v_half] = (Some (Error ''disk I/O error''), [v1])"
    by (simp add: AddEntries_def no_faults_def sql_insert_def)
  have c: "fst (Run env_cancel svc1) = Some (Error ''backup cancelled'')"
    by code_simp
  have d: "''updating_catalog'' \<notin> set (phases (snd (snd (Run env_cancel svc1))))"
    by code_simp
  have e: "length (catalogEntries (snd (snd (Run env_cancel svc1)))) = 1"
    by code_simp
  have f: "catalog svc1 = [v1]"
    by (simp add: svc1_def)
  have g: "GetLatestVersion None [v1] ''/data/a.txt'' = Inr (Some v1)"
    by (simp add: GetLatestVersion_def order_by_tarih_desc_def v1_def)
  have r: "Run env_cancel svc1 = (fst (Run env_cancel svc1), fst (snd (Run env_cancel svc1)),
             snd (snd (Run env_cancel svc1)))"
    by simp
  have "catalog (fst (snd (Run env_cancel svc1))) = catalog svc1"
    using AddEntries_all_or_none
            [of no_faults "[v1]" "[v3, v_half]" env_cancel svc1 "fst (Run env_cancel svc1)"
                "fst (snd (Run env_cancel svc1))" "snd (snd (Run env_cancel svc1))" None
                "''/data/a.txt''"] r c
    by blast
  then show ?thesis
    using a b c d e f g by simp
qed

text \<open>
  Claim C6. \<open>maxTarSize\<close> is 25 MiB. With member sizes that are not negative and do not
  overflow the counter, in every session each tar file that was closed holds at most
  \<open>maxTarSize\<close> bytes without its last member; each tar file closed before the last one
  went over \<open>maxTarSize\<close> (it was closed when its last member took it over the limit); and
  every tar file uploaded is one of the closed ones.
\<close>

theorem sealed_tar_exceeds_by_last_member_only:
  "maxTarSize = 26214400 \<and>
   ((\<forall>i p e. pack env i = Packed p e \<longrightarrow> 0 \<le> e \<and> e \<le> 2 ^ 63 - 1 - maxTarSize) \<and>
    Run env s0 = (err, s', ss) \<longrightarrow>
      (\<forall>sh\<in>set (sealed ss). sum_list (butlast sh) \<le> maxTarSize) \<and>
      (\<forall>sh\<in>set (butlast (sealed ss)). maxTarSize < sum_list sh) \<and>
      (\<forall>u\<in>set (uploaded ss). snd u \<in> set (sealed ss)))"
proof (intro conjI impI)
  show "maxTarSize = 26214400" by (simp add: maxTarSize_def)
next
  assume a: "(\<forall>i p e. pack env i = Packed p e \<longrightarrow> 0 \<le> e \<and> e \<le> 2 ^ 63 - 1 - maxTarSize) \<and>
    Run env s0 = (err, s', ss)"
  then have "sizes_ok env" by (simp add: sizes_ok_def)
  with a have ok: "sealed_ok ss"
    using Run_result(1) by blast
  then show "\<forall>sh\<in>set (sealed ss). sum_list (butlast sh) \<le> maxTarSize"
    and "\<forall>sh\<in>set (butlast (sealed ss)). maxTarSize < sum_list sh"
    and "\<forall>u\<in>set (uploaded ss). snd u \<in> set (sealed ss)"
    by (auto simp: sealed_ok_def)
qed

theorem sealed_tar_exceeds_by_last_member_only_witness:
  "fst (Run env_big svc0) = None \<and>
   sealed (snd (snd (Run env_big svc0))) = [[20971520, 10485760], [1048576]] \<and>
   uploaded (snd (snd (Run env_big svc0))) =
     [(''20240115-100000-000001.tar'', [20971520, 10485760]),
      (''20240115-100000-000002.tar'', [1048576])] \<and>
   sum_list (butlast [20971520, 10485760]) \<le> maxTarSize \<and>
   maxTarSize < sum_list [20971520, 10485760 :: int]"
proof -
  have sz: "\<forall>i p e. pack env_big i = Packed p e \<longrightarrow> 0 \<le> e \<and> e \<le> 2 ^ 63 - 1 - maxTarSize"
    by (simp add: env_big_def env_a_def maxTarSize_def)
  have a: "fst (Run env_big svc0) = None"
    by code_simp
  have b: "sealed (snd (snd (Run env_big svc0))) = [[20971520, 10485760], [1048576]]"
    by code_simp
  have c: "uploaded (snd (snd (Run env_big svc0))) =
     [(''20240115-100000-000001.tar'', [20971520, 10485760]),
      (''20240115-100000-000002.tar'', [1048576])]"
    by code_simp
  have r: "Run env_big svc0 = (fst (Run env_big svc0), fst (snd (Run env_big svc0)),
             snd (snd (Run env_big svc0)))"
    by simp
  show ?thesis
    using sealed_tar_exceeds_by_last_member_only
            [of env_big svc0 "fst (Run env_big svc0)" "fst (snd (Run env_big svc0))"
                "snd (snd (Run env_big svc0))"] sz a b c r
    by auto
qed

text \<open>
  Claim C7 says that two sessions of one process differ by at least one second and never
  share a session id. \<open>Run\<close> reads the clock and does not wait: the sessions \<open>env_a\<close>
  and \<open>env_b\<close>, run one after the other within one second, both complete, carry the same
  session id and write versions 0.4 s apart.
\<close>

theorem sessions_within_one_second_counterexample:
  "fst (Run env_a svc0) = None \<and> fst (Run env_b svc_a) = None \<and>
   now_pack env_a \<le> now_start env_b \<and>
   backupID (snd (snd (Run env_a svc0))) = ''20240115-100000'' \<and>
   backupID (snd (snd (Run env_b svc_a))) = ''20240115-100000'' \<and>
   map Timestamp (catalogEntries (snd (snd (Run env_a svc0)))) = [T1 + 300000000] \<and>
   map Timestamp (catalogEntries (snd (snd (Run env_b svc_a)))) = [T1 + 700000000] \<and>
   map Timestamp (catalog (fst (snd (Run env_b svc_a)))) = [T1 + 300000000, T1 + 700000000] \<and>
   (T1 + 700000000) - (T1 + 300000000) < time_Second"
  by code_simp

text \<open>
  Claim C7, amended. The session id of a session that passes the checks of \<open>Run\<close> is the
  clock reading at its start, formatted to the whole second; every version of the session
  carries the clock reading taken before packing; and two clock readings within the same
  whole second format to the same session id.
\<close>

theorem session_id_is_start_second:
  "(\<not> isRunning s0 \<and> DeviceID s0 \<noteq> 0 \<and> EncryptionKey s0 \<noteq> [] \<longrightarrow>
      backupID (snd (snd (Run env s0))) = Format_20060102_150405 (zone env) (now_start env)) \<and>
   (\<forall>e\<in>set (catalogEntries (snd (snd (Run env s0)))). Timestamp e = now_pack env) \<and>
   (t div time_Second = t' div time_Second \<longrightarrow>
      Format_20060102_150405 z t = Format_20060102_150405 z t')"
proof -
  have r: "Run env s0 = (fst (Run env s0), fst (snd (Run env s0)), snd (snd (Run env s0)))"
    by simp
  show ?thesis
    using Run_result(4,5) [OF r]
    by (auto simp: Format_20060102_150405_def clock_fields_def)
qed

theorem session_id_is_start_second_witness:
  "\<not> isRunning svc0 \<and> DeviceID svc0 \<noteq> 0 \<and> EncryptionKey svc0 \<noteq> [] \<and>
   backupID (snd (snd (Run env_a svc0))) = Format_20060102_150405 (zone env_a) (now_start env_a) \<and>
   map Timestamp (catalogEntries (snd (snd (Run env_a svc0)))) = [now_pack env_a] \<and>
   now_start env_a div time_Second = now_start env_b div time_Second \<and>
   Format_20060102_150405 0 (now_start env_a) = Format_20060102_150405 0 (now_start env_b)"
proof -
  have a: "\<not> isRunning svc0 \<and> DeviceID svc0 \<noteq> 0 \<and> EncryptionKey svc0 \<noteq> []"
    by (simp add: svc0_def)
  have b: "now_start env_a div time_Second = now_start env_b div time_Second"
    by (simp add: env_a_def env_b_def T1_def time_Second_def)
  have c: "map Timestamp (catalogEntries (snd (snd (Run env_a svc0)))) = [now_pack env_a]"
    by code_simp
  show ?thesis
    using session_id_is_start_second [of svc0 env_a "now_start env_a" "now_start env_b" 0] a b c
    by simp
qed

end
